theory Spec2Isabelle
  imports Complex_Main
begin

section \<open>Exceptions\<close>

text \<open>
  The exceptions the collection module can raise or meet. \<open>FetchError\<close> stands for any
  instance of \<open>Exception\<close> that a network or parsing library raises, with its message.
  \<open>KeyboardInterrupt\<close> stands for the exceptions that derive from \<open>BaseException\<close> but not
  from \<open>Exception\<close>: a clause \<open>except Exception\<close> lets them through, a bare \<open>except:\<close>
  catches them. \<open>Falha_na_coleta codigo nome\<close> is
  \<open>Exception(f"Falha na coleta da serie {codigo} ({nome})")\<close>.
\<close>

datatype py_error =
    ValueError
  | OverflowError
  | KeyError
  | AttributeError
  | FetchError string
  | KeyboardInterrupt
  | Falha_na_coleta string string

fun is_Exception :: "py_error \<Rightarrow> bool" where
  "is_Exception KeyboardInterrupt = False"
| "is_Exception _ = True"

section \<open>The resilient fetcher \<open>ler_csv\<close>\<close>

text \<open>
  \<open>pd.read_csv\<close> reads from the network, so its outcome is not a function of its
  arguments. The environment is an oracle \<open>read k args\<close>: what the call number \<open>k\<close>
  (counted from 0 over the whole run) does when it is given \<open>args\<close>. The state records
  the number of reads made so far, the lines printed and the seconds slept.
\<close>

datatype 'df read_outcome = Raises py_error | Returns 'df

datatype log_line =
    Tentativa_falhou nat py_error
  | Falha_apos nat
  | Coletando string string

record io_state =
  reads :: nat
  printed :: "log_line list"
  slept :: nat

definition max_tentativas :: nat where
  "max_tentativas = 5"

definition intervalo :: nat where
  "intervalo = 2"

definition io_init :: io_state where
  "io_init = \<lparr>reads = 0, printed = [], slept = 0\<rparr>"

text \<open>
  The \<open>while tentativas < max_tentativas\<close> loop. A successful read returns at once;
  an \<open>Exception\<close> is counted, printed and followed by a sleep; anything else raised by
  the read is not caught by \<open>except Exception\<close> and leaves the function. The result is
  \<open>Inr (Some df)\<close> for a table, \<open>Inr None\<close> for Python's \<open>None\<close>.
\<close>

function ler_csv_loop ::
  "(nat \<Rightarrow> 'a \<Rightarrow> 'df read_outcome) \<Rightarrow> 'a \<Rightarrow> nat \<Rightarrow> io_state
     \<Rightarrow> (py_error + 'df option) \<times> io_state" where
  "ler_csv_loop read args tentativas s =
     (if tentativas < max_tentativas then
        (case read (reads s) args of
           Returns df \<Rightarrow> (Inr (Some df), s\<lparr>reads := reads s + 1\<rparr>)
         | Raises e \<Rightarrow>
             if is_Exception e then
               ler_csv_loop read args (tentativas + 1)
                 (s\<lparr>reads := reads s + 1,
                    printed := printed s @ [Tentativa_falhou (tentativas + 1) e],
                    slept := slept s + intervalo\<rparr>)
             else (Inl e, s\<lparr>reads := reads s + 1\<rparr>))
      else (Inr None, s\<lparr>printed := printed s @ [Falha_apos max_tentativas]\<rparr>))"
  by pat_completeness auto
termination
  by (relation "measure (\<lambda>(read, args, tentativas, s). max_tentativas - tentativas)") auto

definition ler_csv ::
  "(nat \<Rightarrow> 'a \<Rightarrow> 'df read_outcome) \<Rightarrow> 'a \<Rightarrow> io_state
     \<Rightarrow> (py_error + 'df option) \<times> io_state" where
  "ler_csv read args s = ler_csv_loop read args 0 s"

text \<open>The failed attempts a run has recorded: its \<open>Tentativa ... falhou\<close> lines.\<close>

fun is_failed_attempt :: "log_line \<Rightarrow> bool" where
  "is_failed_attempt (Tentativa_falhou _ _) = True"
| "is_failed_attempt _ = False"

definition failed_attempts :: "io_state \<Rightarrow> nat" where
  "failed_attempts s = length (filter is_failed_attempt (printed s))"

section \<open>Calendar dates\<close>

text \<open>
  \<open>split_date_range\<close> parses its two strings with \<open>datetime.strptime(_, "%d/%m/%Y")\<close> and
  formats every window bound with \<open>strftime("%d/%m/%Y")\<close>. The model works on the parsed
  values: a date is the triple a \<open>datetime\<close> at midnight holds, and a window is a pair
  of dates. \<open>check_date_fields\<close> is the test the \<open>datetime\<close> constructor makes;
  comparison is the lexicographic one on (year, month, day).
\<close>

record date =
  year :: nat
  month :: nat
  day :: nat

definition mkdate :: "nat \<Rightarrow> nat \<Rightarrow> nat \<Rightarrow> date" where
  "mkdate d m y = \<lparr>year = y, month = m, day = d\<rparr>"

definition MINYEAR :: nat where
  "MINYEAR = 1"

definition MAXYEAR :: nat where
  "MAXYEAR = 9999"

definition is_leap :: "nat \<Rightarrow> bool" where
  "is_leap y = (y mod 4 = 0 \<and> (y mod 100 \<noteq> 0 \<or> y mod 400 = 0))"

definition days_in_month :: "nat \<Rightarrow> nat \<Rightarrow> nat" where
  "days_in_month y m =
     (if m = 2 then (if is_leap y then 29 else 28)
      else if m = 4 \<or> m = 6 \<or> m = 9 \<or> m = 11 then 30 else 31)"

definition check_date_fields :: "int \<Rightarrow> nat \<Rightarrow> nat \<Rightarrow> bool" where
  "check_date_fields y m d =
     (int MINYEAR \<le> y \<and> y \<le> int MAXYEAR \<and> 1 \<le> m \<and> m \<le> 12
      \<and> 1 \<le> d \<and> d \<le> days_in_month (nat y) m)"

definition valid_date :: "date \<Rightarrow> bool" where
  "valid_date d = check_date_fields (int (year d)) (month d) (day d)"

definition date_less :: "date \<Rightarrow> date \<Rightarrow> bool" where
  "date_less a b =
     (year a < year b \<or> (year a = year b \<and>
        (month a < month b \<or> (month a = month b \<and> day a < day b))))"

text \<open>The proleptic Gregorian ordinal of a date (1 for 01/01/0001), as \<open>toordinal\<close>.\<close>

definition days_before_year :: "nat \<Rightarrow> nat" where
  "days_before_year y = (y - 1) * 365 + (y - 1) div 4 - (y - 1) div 100 + (y - 1) div 400"

definition DAYS_BEFORE_MONTH :: "nat list" where
  "DAYS_BEFORE_MONTH = [0, 0, 31, 59, 90, 120, 151, 181, 212, 243, 273, 304, 334]"

definition days_before_month :: "nat \<Rightarrow> nat \<Rightarrow> nat" where
  "days_before_month y m = DAYS_BEFORE_MONTH ! m + (if 2 < m \<and> is_leap y then 1 else 0)"

definition toordinal :: "date \<Rightarrow> nat" where
  "toordinal d = days_before_year (year d) + days_before_month (year d) (month d) + day d"

definition MAXORDINAL :: nat where
  "MAXORDINAL = 3652059"

text \<open>
  \<open>d.replace(year=y)\<close> builds a new \<open>datetime\<close> and raises \<open>ValueError\<close> when the fields
  fail the constructor's test: the year is outside 1..9999, or the day does not exist in
  that year (29 February of a common year).
\<close>

definition replace_year :: "date \<Rightarrow> int \<Rightarrow> py_error + date" where
  "replace_year d y =
     (if check_date_fields y (month d) (day d) then Inr (d\<lparr>year := nat y\<rparr>)
      else Inl ValueError)"

text \<open>
  \<open>d + timedelta(days=k)\<close> is the date \<open>k\<close> days after \<open>d\<close> (before it, for a negative
  \<open>k\<close>) and raises \<open>OverflowError\<close> when that date lies outside years 1..9999. It is
  modelled by stepping one calendar day at a time.
\<close>

definition next_day :: "date \<Rightarrow> py_error + date" where
  "next_day d =
     (if day d < days_in_month (year d) (month d) then Inr (d\<lparr>day := day d + 1\<rparr>)
      else if month d < 12 then Inr (d\<lparr>month := month d + 1, day := 1\<rparr>)
      else if year d < MAXYEAR then Inr \<lparr>year = year d + 1, month = 1, day = 1\<rparr>
      else Inl OverflowError)"

definition prev_day :: "date \<Rightarrow> py_error + date" where
  "prev_day d =
     (if 1 < day d then Inr (d\<lparr>day := day d - 1\<rparr>)
      else if 1 < month d
        then Inr (d\<lparr>month := month d - 1, day := days_in_month (year d) (month d - 1)\<rparr>)
      else if MINYEAR < year d then Inr \<lparr>year = year d - 1, month = 12, day = 31\<rparr>
      else Inl OverflowError)"

fun iterate_day :: "(date \<Rightarrow> py_error + date) \<Rightarrow> nat \<Rightarrow> date \<Rightarrow> py_error + date" where
  "iterate_day f 0 d = Inr d"
| "iterate_day f (Suc k) d = (case f d of Inl e \<Rightarrow> Inl e | Inr d' \<Rightarrow> iterate_day f k d')"

definition add_days :: "date \<Rightarrow> int \<Rightarrow> py_error + date" where
  "add_days d k =
     (if 0 \<le> k then iterate_day next_day (nat k) d else iterate_day prev_day (nat (- k)) d)"

section \<open>The interval splitter \<open>split_date_range\<close>\<close>

text \<open>
  The \<open>try\<close>/\<open>except ValueError\<close> block of the loop body: the candidate end is the start
  with its year advanced, or, when \<open>replace\<close> raises \<open>ValueError\<close>, the start plus
  \<open>365 * interval_years\<close> days. An \<open>OverflowError\<close> of the addition is not caught.
  (A year too large for the constructor's integer argument makes \<open>replace\<close> itself raise
  \<open>OverflowError\<close>; the addition of that many days raises it as well, so the outcome is
  the one computed here.)
\<close>

definition advance :: "date \<Rightarrow> int \<Rightarrow> py_error + date" where
  "advance current_start interval_years =
     (case replace_year current_start (int (year current_start) + interval_years) of
        Inr current_end \<Rightarrow> Inr current_end
      | Inl e \<Rightarrow>
          if e = ValueError then add_days current_start (365 * interval_years) else Inl e)"

text \<open>
  The \<open>while current_start < end_date\<close> loop. With \<open>interval_years = 0\<close> the cursor never
  moves and the loop does not end, so the loop is a partial function: the value \<open>None\<close>
  is a run that never returns, \<open>Some (Inl e)\<close> a run that raises \<open>e\<close>, \<open>Some (Inr ws)\<close> a
  run that returns the window list \<open>ws\<close>.
\<close>

partial_function (option) split_loop ::
  "date \<Rightarrow> date \<Rightarrow> int \<Rightarrow> (date \<times> date) list \<Rightarrow> (py_error + (date \<times> date) list) option" where
  "split_loop current_start end_date interval_years result =
     (if date_less current_start end_date then
        (case advance current_start interval_years of
           Inl e \<Rightarrow> Some (Inl e)
         | Inr current_end \<Rightarrow>
             (let current_end = (if date_less end_date current_end then end_date else current_end)
              in split_loop current_end end_date interval_years
                   (result @ [(current_start, current_end)])))
      else Some (Inr result))"

definition split_date_range ::
  "date \<Rightarrow> date \<Rightarrow> int \<Rightarrow> (py_error + (date \<times> date) list) option" where
  "split_date_range start_date end_date interval_years =
     split_loop start_date end_date interval_years []"

text \<open>
  What the properties of the window list are stated with. A list is \<open>linked\<close> from \<open>s\<close> to
  \<open>e\<close> when its first window starts at \<open>s\<close>, every window ends where the next starts, and
  the last ends at \<open>e\<close>. A window is \<open>within_span\<close> when it is not empty and ends no later
  than its start advanced by \<open>n\<close> calendar years or, where that date does not exist, no
  later than \<open>365 * n\<close> days after its start; it has the \<open>full_span\<close> when it ends exactly
  there.
\<close>

fun linked :: "date \<Rightarrow> (date \<times> date) list \<Rightarrow> date \<Rightarrow> bool" where
  "linked s [] e = (s = e)"
| "linked s (w # ws) e = (fst w = s \<and> linked (snd w) ws e)"

definition within_span :: "int \<Rightarrow> date \<times> date \<Rightarrow> bool" where
  "within_span n w =
     (case w of (a, b) \<Rightarrow>
        date_less a b \<and>
        (if check_date_fields (int (year a) + n) (month a) (day a)
         then \<not> date_less (a\<lparr>year := nat (int (year a) + n)\<rparr>) b
         else int (toordinal b) \<le> int (toordinal a) + 365 * n))"

definition full_span :: "int \<Rightarrow> date \<times> date \<Rightarrow> bool" where
  "full_span n w =
     (case w of (a, b) \<Rightarrow>
        (if check_date_fields (int (year a) + n) (month a) (day a)
         then b = a\<lparr>year := nat (int (year a) + n)\<rparr>
         else int (toordinal b) = int (toordinal a) + 365 * n))"

text \<open>The calendar days of the inclusive window from \<open>a\<close> to \<open>b\<close>, in order.\<close>

fun days_from :: "date \<Rightarrow> nat \<Rightarrow> date list" where
  "days_from a 0 = [a]"
| "days_from a (Suc k) = a # (case next_day a of Inl e \<Rightarrow> [] | Inr a' \<Rightarrow> days_from a' k)"

definition calendar_days :: "date \<Rightarrow> date \<Rightarrow> date list" where
  "calendar_days a b = (if date_less b a then [] else days_from a (toordinal b - toordinal a))"

section \<open>Tables\<close>

text \<open>
  A \<open>DataFrame\<close> is an index and a list of named columns of equal length. Only the
  operations the adapters call are modelled. The element-wise conversions of the library
  (\<open>pd.to_numeric\<close>, \<open>pd.to_datetime\<close> with the format \<open>%d/%m/%Y\<close>) and
  \<open>DataFrame.from_records\<close> are parameters of the model, collected in the record
  \<open>pandas\<close>: a conversion of a column raises as soon as one element does.
\<close>

datatype cell = Str string | Num rat | Day date | NaN

record dataframe =
  index_name :: "string option"
  index :: "cell list"
  cols :: "(string \<times> cell list) list"

record pandas =
  to_numeric :: "cell \<Rightarrow> py_error + cell"
  to_datetime :: "cell \<Rightarrow> py_error + cell"
  from_records :: "cell list \<Rightarrow> py_error + dataframe"

definition RangeIndex :: "nat \<Rightarrow> cell list" where
  "RangeIndex n = map (\<lambda>i. Num (of_nat i)) [0..<n]"

text \<open>\<open>df.rename(columns = m)\<close>: labels missing from the table are ignored.\<close>

definition df_rename :: "(string \<times> string) list \<Rightarrow> dataframe \<Rightarrow> dataframe" where
  "df_rename columns df =
     df\<lparr>cols := map (\<lambda>(c, v). (case map_of columns c of Some c' \<Rightarrow> c' | None \<Rightarrow> c, v))
                   (cols df)\<rparr>"

text \<open>\<open>df.filter(items)\<close>: the columns named in \<open>items\<close> that exist, in the order of \<open>items\<close>.\<close>

definition df_filter :: "string list \<Rightarrow> dataframe \<Rightarrow> dataframe" where
  "df_filter items df =
     df\<lparr>cols := concat (map (\<lambda>c. case map_of (cols df) c of
                                     Some v \<Rightarrow> [(c, v)] | None \<Rightarrow> []) items)\<rparr>"

text \<open>\<open>df[c]\<close> raises \<open>KeyError\<close>, \<open>df.c\<close> raises \<open>AttributeError\<close> on a missing column.\<close>

definition df_getitem :: "dataframe \<Rightarrow> string \<Rightarrow> py_error + cell list" where
  "df_getitem df c = (case map_of (cols df) c of Some v \<Rightarrow> Inr v | None \<Rightarrow> Inl KeyError)"

definition df_getattr :: "dataframe \<Rightarrow> string \<Rightarrow> py_error + cell list" where
  "df_getattr df c =
     (case map_of (cols df) c of Some v \<Rightarrow> Inr v | None \<Rightarrow> Inl AttributeError)"

definition isin :: "cell list \<Rightarrow> cell list \<Rightarrow> bool list" where
  "isin col values = map (\<lambda>x. x \<in> set values) col"

text \<open>\<open>df[mask]\<close> with a boolean column keeps the rows where the mask is true.\<close>

definition select_rows :: "bool list \<Rightarrow> 'a list \<Rightarrow> 'a list" where
  "select_rows keep xs = map snd (filter fst (zip keep xs))"

definition df_mask :: "dataframe \<Rightarrow> bool list \<Rightarrow> dataframe" where
  "df_mask df keep =
     df\<lparr>index := select_rows keep (index df),
        cols := map (\<lambda>(c, v). (c, select_rows keep v)) (cols df)\<rparr>"

text \<open>\<open>df[c] = v\<close> and \<open>df.assign(c = v)\<close>: replace the column, or add it at the end.\<close>

definition df_setitem :: "dataframe \<Rightarrow> string \<Rightarrow> cell list \<Rightarrow> dataframe" where
  "df_setitem df c v =
     df\<lparr>cols := (if c \<in> set (map fst (cols df))
                 then map (\<lambda>(k, x). (k, if k = c then v else x)) (cols df)
                 else cols df @ [(c, v)])\<rparr>"

definition df_set_index :: "dataframe \<Rightarrow> string \<Rightarrow> py_error + dataframe" where
  "df_set_index df c =
     (case map_of (cols df) c of
        None \<Rightarrow> Inl KeyError
      | Some v \<Rightarrow> Inr \<lparr>index_name = Some c, index = v,
                      cols = filter (\<lambda>(k, x). k \<noteq> c) (cols df)\<rparr>)"

fun convert_all :: "('a \<Rightarrow> py_error + 'b) \<Rightarrow> 'a list \<Rightarrow> py_error + 'b list" where
  "convert_all f [] = Inr []"
| "convert_all f (x # xs) =
     (case f x of
        Inl e \<Rightarrow> Inl e
      | Inr y \<Rightarrow> (case convert_all f xs of Inl e \<Rightarrow> Inl e | Inr ys \<Rightarrow> Inr (y # ys)))"

text \<open>
  \<open>pd.concat(objs)\<close> drops the entries that are \<open>None\<close> and raises \<open>ValueError\<close> when
  nothing is left (an empty list, or only \<open>None\<close>). Otherwise the rows are stacked in
  order; the columns are the union of the columns in order of first appearance, a column
  a table lacks being filled with \<open>NaN\<close>.
\<close>

fun first_seen :: "'a list \<Rightarrow> 'a list \<Rightarrow> 'a list" where
  "first_seen seen [] = []"
| "first_seen seen (x # xs) =
     (if x \<in> set seen then first_seen seen xs else x # first_seen (seen @ [x]) xs)"

definition column_or_NaN :: "dataframe \<Rightarrow> string \<Rightarrow> cell list" where
  "column_or_NaN df c =
     (case map_of (cols df) c of Some v \<Rightarrow> v | None \<Rightarrow> replicate (length (index df)) NaN)"

definition not_None :: "'a option list \<Rightarrow> 'a list" where
  "not_None objs = concat (map (\<lambda>obj. case obj of None \<Rightarrow> [] | Some x \<Rightarrow> [x]) objs)"

definition pd_concat :: "dataframe option list \<Rightarrow> py_error + dataframe" where
  "pd_concat objs =
     (let frames = not_None objs in
      if frames = [] then Inl ValueError
      else Inr \<lparr>index_name =
                  (if \<forall>df \<in> set frames. index_name df = index_name (hd frames)
                   then index_name (hd frames) else None),
                index = concat (map index frames),
                cols = map (\<lambda>c. (c, concat (map (\<lambda>df. column_or_NaN df c) frames)))
                         (first_seen [] (concat (map (\<lambda>df. map fst (cols df)) frames)))\<rparr>)"

text \<open>
  A method call on the result of \<open>ler_csv\<close>: \<open>None.rename\<close> is an attribute lookup on
  \<open>None\<close> and raises \<open>AttributeError\<close>.
\<close>

definition rename_method ::
  "dataframe option \<Rightarrow> (string \<times> string) list \<Rightarrow> py_error + dataframe" where
  "rename_method resposta columns =
     (case resposta of None \<Rightarrow> Inl AttributeError
      | Some df \<Rightarrow> Inr (df_rename columns df))"

section \<open>Source adapters\<close>

text \<open>
  The requests the adapters make. For the SGS series the query string carries the series
  code and the two window bounds; the other locators are plain strings.
\<close>

datatype request =
    Read_csv string
  | Read_csv_sgs string date date
  | Read_json string
  | Read_excel string "string list"

type_synonym reader = "nat \<Rightarrow> request \<Rightarrow> dataframe read_outcome"

definition Diaria :: string where
  "Diaria = ''Di'' @ [CHR 0xC3, CHR 0xA1] @ ''ria''"

definition print_coletando :: "string \<Rightarrow> string \<Rightarrow> io_state \<Rightarrow> io_state" where
  "print_coletando codigo nome s = s\<lparr>printed := printed s @ [Coletando codigo nome]\<rparr>"

text \<open>One call of \<open>pd.read_json\<close> or \<open>pd.read_excel\<close>: a single read, no retry.\<close>

definition read_once :: "reader \<Rightarrow> request \<Rightarrow> io_state \<Rightarrow> dataframe read_outcome \<times> io_state" where
  "read_once read req s = (read (reads s) req, s\<lparr>reads := reads s + 1\<rparr>)"

subsection \<open>\<open>coleta_bcb_sgs\<close>\<close>

text \<open>The \<open>for d in datas_inicio\<close> loop: one \<open>ler_csv\<close> per window, appended in order.\<close>

fun fetch_windows ::
  "reader \<Rightarrow> string \<Rightarrow> (date \<times> date) list \<Rightarrow> dataframe option list \<Rightarrow> io_state
     \<Rightarrow> (py_error + dataframe option list) \<times> io_state" where
  "fetch_windows read codigo [] resposta s = (Inr resposta, s)"
| "fetch_windows read codigo (d # ds) resposta s =
     (case ler_csv read (Read_csv_sgs codigo (fst d) (snd d)) s of
        (Inl e, s') \<Rightarrow> (Inl e, s')
      | (Inr r, s') \<Rightarrow> fetch_windows read codigo ds (resposta @ [r]) s')"

text \<open>
  The \<open>else\<close> branch: \<open>rename\<close>, \<open>assign(data = pd.to_datetime(x.data, ...))\<close>,
  \<open>set_index("data")\<close>. It runs outside the \<open>try\<close>, so what it raises is not converted.
\<close>

definition sgs_normalize :: "pandas \<Rightarrow> string \<Rightarrow> dataframe \<Rightarrow> py_error + dataframe" where
  "sgs_normalize L nome resposta =
     (let x = df_rename [(''valor'', nome)] resposta in
      case df_getattr x ''data'' of
        Inl e \<Rightarrow> Inl e
      | Inr col \<Rightarrow>
          (case convert_all (to_datetime L) col of
             Inl e \<Rightarrow> Inl e
           | Inr datas \<Rightarrow> df_set_index (df_setitem x ''data'' datas) ''data''))"

text \<open>
  \<open>split_date_range\<close> is called before the \<open>try\<close>. Inside the \<open>try\<close> are the print, the
  reads and \<open>pd.concat\<close>; the bare \<open>except:\<close> turns whatever they raise into the domain
  error.
\<close>

definition coleta_bcb_sgs ::
  "pandas \<Rightarrow> reader \<Rightarrow> string \<Rightarrow> string \<Rightarrow> string \<Rightarrow> date \<Rightarrow> date \<Rightarrow> io_state
     \<Rightarrow> ((py_error + dataframe) \<times> io_state) option" where
  "coleta_bcb_sgs L read codigo nome freq data_inicio data_fim s =
     (case (if freq = Diaria then split_date_range data_inicio data_fim 5
            else Some (Inr [(data_inicio, data_fim)])) of
        None \<Rightarrow> None
      | Some (Inl e) \<Rightarrow> Some (Inl e, s)
      | Some (Inr datas_inicio) \<Rightarrow>
          Some (case fetch_windows read codigo datas_inicio [] (print_coletando codigo nome s) of
                  (Inl e, s') \<Rightarrow> (Inl (Falha_na_coleta codigo nome), s')
                | (Inr resposta, s') \<Rightarrow>
                    (case pd_concat resposta of
                       Inl e \<Rightarrow> (Inl (Falha_na_coleta codigo nome), s')
                     | Inr resposta \<Rightarrow> (sgs_normalize L nome resposta, s'))))"

subsection \<open>\<open>coleta_bcb_odata\<close> and \<open>coleta_fred\<close>\<close>

definition coleta_bcb_odata ::
  "reader \<Rightarrow> string \<Rightarrow> string \<Rightarrow> io_state \<Rightarrow> (py_error + dataframe) \<times> io_state" where
  "coleta_bcb_odata read codigo nome s =
     (let url = codigo in
      case ler_csv read (Read_csv url) (print_coletando codigo nome s) of
        (Inl e, s') \<Rightarrow> (Inl (Falha_na_coleta codigo nome), s')
      | (Inr resposta, s') \<Rightarrow> (rename_method resposta [(''Mediana'', nome)], s'))"

text \<open>
  In the dictionary \<open>{"DATE": "data", codigo: nome}\<close> a later entry replaces an earlier
  one with the same key; \<open>map_of\<close> takes the first, so the entries are listed last first.
\<close>

definition coleta_fred ::
  "reader \<Rightarrow> string \<Rightarrow> string \<Rightarrow> io_state \<Rightarrow> (py_error + dataframe) \<times> io_state" where
  "coleta_fred read codigo nome s =
     (let url = ''https://fred.stlouisfed.org/graph/fredgraph.csv?id='' @ codigo in
      case ler_csv read (Read_csv url) (print_coletando codigo nome s) of
        (Inl e, s') \<Rightarrow> (Inl (Falha_na_coleta codigo nome), s')
      | (Inr resposta, s') \<Rightarrow>
          (rename_method resposta [(codigo, nome), (''DATE'', ''data'')], s'))"

subsection \<open>\<open>coleta_ipeadata\<close>, \<open>coleta_ibge_sidra\<close> and \<open>coleta_ifi\<close>\<close>

definition coleta_ipeadata ::
  "pandas \<Rightarrow> reader \<Rightarrow> string \<Rightarrow> string \<Rightarrow> io_state \<Rightarrow> (py_error + dataframe) \<times> io_state" where
  "coleta_ipeadata L read codigo nome s =
     (let url = ''http://www.ipeadata.gov.br/api/odata4/ValoresSerie(SERCODIGO=''
                  @ [CHR 0x27] @ codigo @ [CHR 0x27] @ '')'' in
      case read_once read (Read_json url) (print_coletando codigo nome s) of
        (Raises e, s') \<Rightarrow> (Inl (Falha_na_coleta codigo nome), s')
      | (Returns resposta, s') \<Rightarrow>
          (case df_getitem resposta ''value'' of
             Inl e \<Rightarrow> (Inl e, s')
           | Inr records \<Rightarrow>
               (case from_records L records of
                  Inl e \<Rightarrow> (Inl e, s')
                | Inr df \<Rightarrow>
                    (Inr (df_filter [''data'', nome]
                            (df_rename [(''VALVALOR'', nome), (''VALDATA'', ''data'')] df)),
                     s'))))"

definition placeholders :: "cell list" where
  "placeholders = [Str ''Valor'', Str ''...'', Str ''-'']"

definition coleta_ibge_sidra ::
  "pandas \<Rightarrow> reader \<Rightarrow> string \<Rightarrow> string \<Rightarrow> io_state \<Rightarrow> (py_error + dataframe) \<times> io_state" where
  "coleta_ibge_sidra L read codigo nome s =
     (let url = codigo @ ''?formato=json'' in
      case read_once read (Read_json url) (print_coletando codigo nome s) of
        (Raises e, s') \<Rightarrow> (Inl (Falha_na_coleta codigo nome), s')
      | (Returns resposta, s') \<Rightarrow>
          (let df = df_filter [''data'', nome]
                      (df_rename [(''D3C'', ''data''), (''V'', nome)] resposta) in
           case df_getitem df nome of
             Inl e \<Rightarrow> (Inl e, s')
           | Inr col \<Rightarrow>
               (let df = df_mask df (map Not (isin col placeholders)) in
                case df_getitem df nome of
                  Inl e \<Rightarrow> (Inl e, s')
                | Inr col \<Rightarrow>
                    (case convert_all (to_numeric L) col of
                       Inl e \<Rightarrow> (Inl e, s')
                     | Inr numeric \<Rightarrow> (Inr (df_setitem df nome numeric), s')))))"

definition coleta_ifi ::
  "reader \<Rightarrow> string \<Rightarrow> string \<Rightarrow> io_state \<Rightarrow> (py_error + dataframe) \<times> io_state" where
  "coleta_ifi read codigo nome s =
     (case read_once read (Read_excel codigo [''data'', ''lim_inf'', nome, ''lim_sup''])
             (print_coletando codigo nome s) of
        (Raises e, s') \<Rightarrow> (Inl (Falha_na_coleta codigo nome), s')
      | (Returns resposta, s') \<Rightarrow> (Inr resposta, s'))"

section \<open>The collection script\<close>

text \<open>
  One row of the metadata sheet, read with \<open>dtype = str\<close>. The script filters the sheet
  once per source with \<open>query\<close>, calls the adapter on every row that is left, and appends
  the table to the list the dictionary of the source holds for the row's frequency.
  Indexing a dictionary with a key it lacks raises \<open>KeyError\<close>; any exception ends the
  script.
\<close>

record metadata_row =
  Fonte :: string
  Forma_de_Coleta :: string
  Input_de_Coleta :: string
  Identificador :: string
  Frequencia :: string

type_synonym buckets = "(string \<times> dataframe list) list"

record collected =
  df_bruto_bcb_sgs :: buckets
  df_bruto_bcb_odata :: "dataframe list"
  df_bruto_ipeadata :: buckets
  df_bruto_ibge_sidra :: buckets
  df_bruto_fred :: buckets
  df_bruto_ifi :: dataframe

definition query_api :: "string \<Rightarrow> metadata_row list \<Rightarrow> metadata_row list" where
  "query_api fonte df_metadados =
     filter (\<lambda>r. Fonte r = fonte \<and> Forma_de_Coleta r = ''API'') df_metadados"

definition bucket_append :: "buckets \<Rightarrow> string \<Rightarrow> dataframe \<Rightarrow> py_error + buckets" where
  "bucket_append b k df =
     (if k \<in> set (map fst b)
      then Inr (map (\<lambda>(k', xs). (k', if k' = k then xs @ [df] else xs)) b)
      else Inl KeyError)"

fun collect_rows ::
  "(metadata_row \<Rightarrow> io_state \<Rightarrow> ((py_error + dataframe) \<times> io_state) option)
     \<Rightarrow> metadata_row list \<Rightarrow> buckets \<Rightarrow> io_state
     \<Rightarrow> ((py_error + buckets) \<times> io_state) option" where
  "collect_rows coleta [] b s = Some (Inr b, s)"
| "collect_rows coleta (ser # rest) b s =
     (case coleta ser s of
        None \<Rightarrow> None
      | Some (Inl e, s') \<Rightarrow> Some (Inl e, s')
      | Some (Inr df_temp, s') \<Rightarrow>
          (case bucket_append b (Frequencia ser) df_temp of
             Inl e \<Rightarrow> Some (Inl e, s')
           | Inr b' \<Rightarrow> collect_rows coleta rest b' s'))"

fun collect_list ::
  "(metadata_row \<Rightarrow> io_state \<Rightarrow> (py_error + dataframe) \<times> io_state)
     \<Rightarrow> metadata_row list \<Rightarrow> dataframe list \<Rightarrow> io_state
     \<Rightarrow> (py_error + dataframe list) \<times> io_state" where
  "collect_list coleta [] acc s = (Inr acc, s)"
| "collect_list coleta (ser # rest) acc s =
     (case coleta ser s of
        (Inl e, s') \<Rightarrow> (Inl e, s')
      | (Inr df_temp, s') \<Rightarrow> collect_list coleta rest (acc @ [df_temp]) s')"

definition then_run ::
  "((py_error + 'a) \<times> io_state) option
     \<Rightarrow> ('a \<Rightarrow> io_state \<Rightarrow> ((py_error + 'b) \<times> io_state) option)
     \<Rightarrow> ((py_error + 'b) \<times> io_state) option" where
  "then_run m f =
     (case m of
        None \<Rightarrow> None
      | Some (Inl e, s) \<Rightarrow> Some (Inl e, s)
      | Some (Inr x, s) \<Rightarrow> f x s)"

text \<open>
  The six sections of the script. \<open>coleta_bcb_sgs\<close> is called with its default bounds:
  \<open>data_inicio\<close> is 01/01/2000 and \<open>data_fim\<close>, the day of the run plus 36 months, is a
  parameter.
\<close>

definition section_bcb_sgs ::
  "pandas \<Rightarrow> reader \<Rightarrow> date \<Rightarrow> metadata_row list \<Rightarrow> io_state
     \<Rightarrow> ((py_error + buckets) \<times> io_state) option" where
  "section_bcb_sgs L read data_fim df_metadados s =
     collect_rows
       (\<lambda>ser. coleta_bcb_sgs L read (Input_de_Coleta ser) (Identificador ser) (Frequencia ser)
                 (mkdate 1 1 2000) data_fim)
       (query_api ''BCB/SGS'' df_metadados)
       [(Diaria, []), (''Mensal'', []), (''Trimestral'', []), (''Anual'', [])] s"

definition section_bcb_odata ::
  "reader \<Rightarrow> metadata_row list \<Rightarrow> io_state \<Rightarrow> ((py_error + dataframe list) \<times> io_state) option" where
  "section_bcb_odata read df_metadados s =
     Some (collect_list (\<lambda>ser. coleta_bcb_odata read (Input_de_Coleta ser) (Identificador ser))
             (query_api ''BCB/ODATA'' df_metadados) [] s)"

definition section_ipeadata ::
  "pandas \<Rightarrow> reader \<Rightarrow> metadata_row list \<Rightarrow> io_state
     \<Rightarrow> ((py_error + buckets) \<times> io_state) option" where
  "section_ipeadata L read df_metadados s =
     collect_rows
       (\<lambda>ser s. Some (coleta_ipeadata L read (Input_de_Coleta ser) (Identificador ser) s))
       (query_api ''IPEADATA'' df_metadados)
       [(Diaria, []), (''Mensal'', [])] s"

definition section_ibge_sidra ::
  "pandas \<Rightarrow> reader \<Rightarrow> metadata_row list \<Rightarrow> io_state
     \<Rightarrow> ((py_error + buckets) \<times> io_state) option" where
  "section_ibge_sidra L read df_metadados s =
     collect_rows
       (\<lambda>ser s. Some (coleta_ibge_sidra L read (Input_de_Coleta ser) (Identificador ser) s))
       (query_api ''IBGE/SIDRA'' df_metadados)
       [(''Mensal'', []), (''Trimestral'', [])] s"

definition section_fred ::
  "reader \<Rightarrow> metadata_row list \<Rightarrow> io_state \<Rightarrow> ((py_error + buckets) \<times> io_state) option" where
  "section_fred read df_metadados s =
     collect_rows
       (\<lambda>ser s. Some (coleta_fred read (Input_de_Coleta ser) (Identificador ser) s))
       (query_api ''FRED'' df_metadados)
       [(Diaria, []), (''Mensal'', []), (''Trimestral'', [])] s"

text \<open>
  The last section takes row 0 of the rows whose source is \<open>IFI\<close>, whatever their
  collection method; with no such row the lookup \<open>[0]\<close> raises \<open>KeyError\<close>.
\<close>

definition section_ifi ::
  "reader \<Rightarrow> metadata_row list \<Rightarrow> io_state \<Rightarrow> ((py_error + dataframe) \<times> io_state) option" where
  "section_ifi read df_metadados s =
     (case filter (\<lambda>r. Fonte r = ''IFI'') df_metadados of
        [] \<Rightarrow> Some (Inl KeyError, s)
      | ser # rest \<Rightarrow> Some (coleta_ifi read (Input_de_Coleta ser) (Identificador ser) s))"

definition coleta_script ::
  "pandas \<Rightarrow> reader \<Rightarrow> date \<Rightarrow> metadata_row list \<Rightarrow> io_state
     \<Rightarrow> ((py_error + collected) \<times> io_state) option" where
  "coleta_script L read data_fim df_metadados s =
     then_run (section_bcb_sgs L read data_fim df_metadados s) (\<lambda>sgs s.
     then_run (section_bcb_odata read df_metadados s) (\<lambda>odata s.
     then_run (section_ipeadata L read df_metadados s) (\<lambda>ipeadata s.
     then_run (section_ibge_sidra L read df_metadados s) (\<lambda>sidra s.
     then_run (section_fred read df_metadados s) (\<lambda>fred s.
     then_run (section_ifi read df_metadados s) (\<lambda>ifi s.
       Some (Inr \<lparr>df_bruto_bcb_sgs = sgs, df_bruto_bcb_odata = odata,
                  df_bruto_ipeadata = ipeadata, df_bruto_ibge_sidra = sidra,
                  df_bruto_fred = fred, df_bruto_ifi = ifi\<rparr>, s)))))))"

text \<open>
  The rows the script collects: a row of one of the five API sources whose collection
  method is \<open>API\<close>, or a row of the source \<open>IFI\<close>.
\<close>

definition selected :: "metadata_row \<Rightarrow> bool" where
  "selected r =
     ((Fonte r \<in> {''BCB/SGS'', ''BCB/ODATA'', ''IPEADATA'', ''IBGE/SIDRA'', ''FRED''}
        \<and> Forma_de_Coleta r = ''API'')
      \<or> Fonte r = ''IFI'')"

section \<open>Inputs the properties are stated on\<close>

text \<open>
  The table \<open>pd.read_json\<close> gives for a SIDRA answer whose rows have the period in \<open>D3C\<close> and
  the value, a string, in \<open>V\<close>.
\<close>

definition sidra_json :: "(string \<times> string) list \<Rightarrow> dataframe" where
  "sidra_json rows =
     \<lparr>index_name = None, index = RangeIndex (length rows),
      cols = [(''D3C'', map (\<lambda>r. Str (fst r)) rows), (''V'', map (\<lambda>r. Str (snd r)) rows)]\<rparr>"

text \<open>
  The table \<open>pd.read_csv\<close> gives for an SGS answer with one row per day of \<open>days\<close>: the
  day, as the cell \<open>enc d\<close>, in \<open>data\<close> and the value \<open>val d\<close> in \<open>valor\<close>.
\<close>

definition sgs_csv :: "(date \<Rightarrow> cell) \<Rightarrow> (date \<Rightarrow> rat) \<Rightarrow> date list \<Rightarrow> dataframe" where
  "sgs_csv enc val days =
     \<lparr>index_name = None, index = RangeIndex (length days),
      cols = [(''data'', map enc days), (''valor'', map (\<lambda>d. Num (val d)) days)]\<rparr>"

text \<open>The date \<open>k\<close> calendar years after \<open>d\<close>, same month and day.\<close>

definition plus_years :: "date \<Rightarrow> nat \<Rightarrow> date" where
  "plus_years d k = d\<lparr>year := year d + k\<rparr>"

text \<open>
  The six windows of five calendar years that start at \<open>s\<close>, and the rows obtained by
  stitching the days of each inclusive window one after the other.
\<close>

definition five_year_windows :: "date \<Rightarrow> (date \<times> date) list" where
  "five_year_windows s =
     [(s, plus_years s 5), (plus_years s 5, plus_years s 10),
      (plus_years s 10, plus_years s 15), (plus_years s 15, plus_years s 20),
      (plus_years s 20, plus_years s 25), (plus_years s 25, plus_years s 30)]"

definition stitched_days :: "(date \<times> date) list \<Rightarrow> date list" where
  "stitched_days ws = concat (map (\<lambda>w. calendar_days (fst w) (snd w)) ws)"

text \<open>A library and readers for the concrete runs.\<close>

definition pandas_example :: pandas where
  "pandas_example =
     \<lparr>to_numeric = (\<lambda>c. if c = Str ''100'' then Inr (Num 100) else Inl ValueError),
      to_datetime = (\<lambda>c. Inr c),
      from_records = (\<lambda>records. Inr \<lparr>index_name = None,
                                       index = RangeIndex (length records), cols = []\<rparr>)\<rparr>"

definition always_fails :: reader where
  "always_fails k req = Raises (FetchError ''timeout'')"

definition sidra_example :: reader where
  "sidra_example k req =
     Returns (sidra_json [(''2020-01'', ''100''), (''2020-02'', ''...''), (''2020-03'', ''-'')])"

definition daily_sgs :: reader where
  "daily_sgs k req =
     (case req of
        Read_csv_sgs codigo a b \<Rightarrow> Returns (sgs_csv Day (\<lambda>d. 1) (calendar_days a b))
      | _ \<Rightarrow> Raises (FetchError ''not found''))"

definition empty_table :: dataframe where
  "empty_table = \<lparr>index_name = None, index = [], cols = [(''value'', [])]\<rparr>"

definition always_empty :: reader where
  "always_empty k req = Returns empty_table"

definition row_ifi :: metadata_row where
  "row_ifi = \<lparr>Fonte = ''IFI'', Forma_de_Coleta = ''Link'', Input_de_Coleta = ''hiato.xlsx'',
              Identificador = ''hiato'', Frequencia = ''Trimestral''\<rparr>"

definition row_manual :: metadata_row where
  "row_manual = \<lparr>Fonte = ''BCB/SGS'', Forma_de_Coleta = ''Manual'', Input_de_Coleta = ''432'',
                 Identificador = ''selic'', Frequencia = ''Mensal''\<rparr>"

definition row_ipea_trimestral :: metadata_row where
  "row_ipea_trimestral =
     \<lparr>Fonte = ''IPEADATA'', Forma_de_Coleta = ''API'', Input_de_Coleta = ''PAN4_PIBPMG4'',
      Identificador = ''pib'', Frequencia = ''Trimestral''\<rparr>"

section \<open>Properties of the fetcher\<close>

declare ler_csv_loop.simps [simp del]

lemma ler_csv_loop_exhaust:
  assumes "\<forall>k. \<exists>e. read k args = Raises e \<and> is_Exception e"
    and "tentativas \<le> max_tentativas"
  shows "fst (ler_csv_loop read args tentativas s) = Inr None
       \<and> reads (snd (ler_csv_loop read args tentativas s))
           = reads s + (max_tentativas - tentativas)
       \<and> slept (snd (ler_csv_loop read args tentativas s))
           = slept s + intervalo * (max_tentativas - tentativas)
       \<and> failed_attempts (snd (ler_csv_loop read args tentativas s))
           = failed_attempts s + (max_tentativas - tentativas)"
  using assms(2)
proof (induction "max_tentativas - tentativas" arbitrary: tentativas s)
  case 0
  then have "\<not> tentativas < max_tentativas" by simp
  then show ?case
    by (subst (1 2 3 4) ler_csv_loop.simps) (simp add: failed_attempts_def)
next
  case (Suc n)
  then have lt: "tentativas < max_tentativas" by simp
  obtain e where e: "read (reads s) args = Raises e" "is_Exception e"
    using assms(1) by blast
  let ?s' = "s\<lparr>reads := reads s + 1,
                 printed := printed s @ [Tentativa_falhou (tentativas + 1) e],
                 slept := slept s + intervalo\<rparr>"
  have step: "ler_csv_loop read args tentativas s
                = ler_csv_loop read args (tentativas + 1) ?s'"
    by (subst ler_csv_loop.simps) (simp add: lt e)
  have n: "n = max_tentativas - (tentativas + 1)" using Suc.hyps(2) by simp
  have le: "tentativas + 1 \<le> max_tentativas" using lt by simp
  have fa: "failed_attempts ?s' = failed_attempts s + 1"
    by (simp add: failed_attempts_def)
  have d: "max_tentativas - tentativas = Suc (max_tentativas - (tentativas + 1))"
    using lt by simp
  from Suc.hyps(1) [OF n le, of ?s'] show ?case
    unfolding step d using fa by simp
qed

text \<open>
  C4. If every call of the underlying read raises an exception (an instance of
  \<open>Exception\<close>, the class the handler names), \<open>ler_csv\<close> makes exactly 5 reads, records
  5 failed attempts, and returns \<open>None\<close>; it raises nothing.
\<close>

theorem ler_csv_exhaustion:
  assumes "\<forall>k. \<exists>e. read k args = Raises e \<and> is_Exception e"
  shows "fst (ler_csv read args s) = Inr None
       \<and> reads (snd (ler_csv read args s)) = reads s + 5
       \<and> failed_attempts (snd (ler_csv read args s)) = failed_attempts s + 5"
  using ler_csv_loop_exhaust [of read args 0 s] assms
  by (simp add: ler_csv_def max_tentativas_def)

theorem ler_csv_exhaustion_witness:
  "fst (ler_csv (\<lambda>k a. (Raises (FetchError ''timeout'') :: unit read_outcome)) ''url'' io_init)
     = Inr None
   \<and> reads (snd (ler_csv (\<lambda>k a. (Raises (FetchError ''timeout'') :: unit read_outcome))
                    ''url'' io_init)) = 5"
  using ler_csv_exhaustion
    [of "\<lambda>k a. (Raises (FetchError ''timeout'') :: unit read_outcome)" "''url''" io_init]
  by (simp add: io_init_def)

text \<open>
  C5. If the read fails (with an \<open>Exception\<close>) on the first two attempts and succeeds on
  the third, \<open>ler_csv\<close> returns the table of the third read, has recorded exactly 2 failed
  attempts and has made exactly 3 reads.
\<close>

theorem ler_csv_short_circuit:
  assumes "read (reads s) args = Raises e1" "is_Exception e1"
    and "read (reads s + 1) args = Raises e2" "is_Exception e2"
    and "read (reads s + 2) args = Returns df"
  shows "fst (ler_csv read args s) = Inr (Some df)
       \<and> reads (snd (ler_csv read args s)) = reads s + 3
       \<and> failed_attempts (snd (ler_csv read args s)) = failed_attempts s + 2
       \<and> slept (snd (ler_csv read args s)) = slept s + 4"
  using assms
  by (simp add: ler_csv_def ler_csv_loop.simps max_tentativas_def intervalo_def
      failed_attempts_def)

theorem ler_csv_short_circuit_witness:
  "fst (ler_csv (\<lambda>k a. if k < 2 then Raises (FetchError ''timeout'') else Returns (7::nat))
          ''url'' io_init) = Inr (Some 7)
   \<and> reads (snd (ler_csv (\<lambda>k a. if k < 2 then Raises (FetchError ''timeout'')
                                  else Returns (7::nat)) ''url'' io_init)) = 3
   \<and> failed_attempts (snd (ler_csv (\<lambda>k a. if k < 2 then Raises (FetchError ''timeout'')
                                  else Returns (7::nat)) ''url'' io_init)) = 2"
  using ler_csv_short_circuit
    [of "\<lambda>k a. if k < 2 then Raises (FetchError ''timeout'') else Returns (7::nat)"
        io_init "''url''" "FetchError ''timeout''" "FetchError ''timeout''" 7]
  by (simp add: io_init_def failed_attempts_def)

section \<open>Calendar facts\<close>

lemma days_before_year_Suc:
  assumes "1 \<le> y"
  shows "days_before_year (Suc y) = days_before_year y + (if is_leap y then 366 else 365)"
proof -
  obtain k where k: "y = Suc k" using assms by (cases y) simp_all
  have le: "k div 100 \<le> k div 4" by (rule div_le_mono2) simp_all
  have a: "Suc k mod 100 = 0 \<Longrightarrow> Suc k mod 4 = 0"
    using mod_mod_cancel [of 4 100 "Suc k"] by simp
  have b: "Suc k mod 400 = 0 \<Longrightarrow> Suc k mod 100 = 0"
    using mod_mod_cancel [of 100 400 "Suc k"] by simp
  define q4 where "q4 = k div 4"
  define q100 where "q100 = k div 100"
  define q400 where "q400 = k div 400"
  have le': "q100 \<le> q4" using le by (simp add: q4_def q100_def)
  show ?thesis
    unfolding k days_before_year_def is_leap_def using le' a b
    by (simp add: div_Suc add_ac flip: q4_def q100_def q400_def)
qed

lemma days_before_year_mono:
  assumes "1 \<le> y" "y \<le> y'"
  shows "days_before_year y \<le> days_before_year y'"
  using assms(2,1)
proof (induction y' rule: dec_induct)
  case base show ?case by simp
next
  case (step k)
  then show ?case using days_before_year_Suc [of k] by simp
qed

lemma days_before_year_add: "1 \<le> y \<Longrightarrow> days_before_year y + 365 * k \<le> days_before_year (y + k)"
proof (induction k)
  case 0 show ?case by simp
next
  case (Suc k)
  then show ?case using days_before_year_Suc [of "y + k"] by (simp split: if_splits)
qed

lemma month_cases:
  assumes "1 \<le> m" "m \<le> 12"
  obtains "m = 1" | "m = 2" | "m = 3" | "m = 4" | "m = 5" | "m = 6"
        | "m = 7" | "m = 8" | "m = 9" | "m = 10" | "m = 11" | "m = (12::nat)"
proof -
  have "m = 1 \<or> m = 2 \<or> m = 3 \<or> m = 4 \<or> m = 5 \<or> m = 6
        \<or> m = 7 \<or> m = 8 \<or> m = 9 \<or> m = 10 \<or> m = 11 \<or> m = 12"
    using assms by presburger
  then show thesis using that by blast
qed

lemma days_before_month_Suc:
  assumes "1 \<le> m" "m < 12"
  shows "days_before_month y (Suc m) = days_before_month y m + days_in_month y m"
proof -
  have "1 \<le> m" "m \<le> 12" using assms by simp_all
  then show ?thesis using assms(2)
    by (cases m rule: month_cases)
       (simp_all add: days_before_month_def DAYS_BEFORE_MONTH_def days_in_month_def)
qed

lemma days_before_month_12:
  "days_before_month y 12 + days_in_month y 12 = (if is_leap y then 366 else 365)"
  by (simp add: days_before_month_def DAYS_BEFORE_MONTH_def days_in_month_def)

lemma days_before_month_mono:
  assumes "m \<le> m'" "1 \<le> m" "m' \<le> 12"
  shows "days_before_month y m \<le> days_before_month y m'"
  using assms
proof (induction m' rule: dec_induct)
  case base show ?case by simp
next
  case (step k)
  then show ?case using days_before_month_Suc [of k y] by simp
qed

lemma days_before_month_end:
  assumes "1 \<le> m" "m \<le> 12"
  shows "days_before_month y m + days_in_month y m \<le> (if is_leap y then 366 else 365)"
proof (cases "m = 12")
  case True then show ?thesis using days_before_month_12 [of y] by simp
next
  case False
  then have "m < 12" using assms by simp
  then have "days_before_month y m + days_in_month y m = days_before_month y (Suc m)"
    using days_before_month_Suc assms by simp
  also have "\<dots> \<le> days_before_month y 12"
    using days_before_month_mono [of "Suc m" 12 y] \<open>m < 12\<close> by simp
  also have "\<dots> \<le> (if is_leap y then 366 else 365)"
    using days_before_month_12 [of y] by (simp split: if_splits)
  finally show ?thesis .
qed

lemma valid_dateD:
  "valid_date d \<Longrightarrow> 1 \<le> year d \<and> year d \<le> 9999 \<and> 1 \<le> month d \<and> month d \<le> 12
     \<and> 1 \<le> day d \<and> day d \<le> days_in_month (year d) (month d)"
  by (simp add: valid_date_def check_date_fields_def MINYEAR_def MAXYEAR_def)

lemma toordinal_upper:
  assumes "valid_date d"
  shows "toordinal d \<le> days_before_year (Suc (year d))"
proof -
  have "days_before_month (year d) (month d) + day d
          \<le> days_before_month (year d) (month d) + days_in_month (year d) (month d)"
    using valid_dateD [OF assms] by simp
  also have "\<dots> \<le> (if is_leap (year d) then 366 else 365)"
    using days_before_month_end valid_dateD [OF assms] by simp
  finally show ?thesis
    using days_before_year_Suc [of "year d"] valid_dateD [OF assms]
    by (simp add: toordinal_def)
qed

lemma toordinal_lower: "valid_date d \<Longrightarrow> days_before_year (year d) < toordinal d"
  using valid_dateD [of d] by (simp add: toordinal_def)

lemma date_less_toordinal:
  assumes "valid_date a" "valid_date b" "date_less a b"
  shows "toordinal a < toordinal b"
proof -
  note va = valid_dateD [OF assms(1)] and vb = valid_dateD [OF assms(2)]
  consider "year a < year b" | "year a = year b" "month a < month b"
    | "year a = year b" "month a = month b" "day a < day b"
    using assms(3) by (auto simp: date_less_def)
  then show ?thesis
  proof cases
    case 1
    have "toordinal a \<le> days_before_year (Suc (year a))" by (rule toordinal_upper [OF assms(1)])
    also have "\<dots> \<le> days_before_year (year b)"
      using days_before_year_mono [of "Suc (year a)" "year b"] 1 by simp
    also have "\<dots> < toordinal b" by (rule toordinal_lower [OF assms(2)])
    finally show ?thesis .
  next
    case 2
    have "days_before_month (year a) (month a) + day a
            \<le> days_before_month (year a) (month a) + days_in_month (year a) (month a)"
      using va by simp
    also have "\<dots> = days_before_month (year a) (Suc (month a))"
      using days_before_month_Suc [of "month a" "year a"] va vb 2 by simp
    also have "\<dots> \<le> days_before_month (year a) (month b)"
      using days_before_month_mono [of "Suc (month a)" "month b" "year a"] vb 2 by simp
    finally show ?thesis using 2 vb by (simp add: toordinal_def)
  next
    case 3
    then show ?thesis by (simp add: toordinal_def)
  qed
qed

lemma date_trichotomy: "date_less a b \<or> a = b \<or> date_less b a"
  by (cases a; cases b) (auto simp: date_less_def)

lemma date_less_irrefl: "\<not> date_less a a"
  by (simp add: date_less_def)

lemma toordinal_less_iff:
  assumes "valid_date a" "valid_date b"
  shows "toordinal a < toordinal b \<longleftrightarrow> date_less a b"
  using date_less_toordinal [OF assms] date_less_toordinal [OF assms(2,1)]
    date_trichotomy [of a b] by auto

lemma toordinal_inj:
  assumes "valid_date a" "valid_date b" "toordinal a = toordinal b"
  shows "a = b"
  using date_less_toordinal [OF assms(1,2)] date_less_toordinal [OF assms(2,1)]
    date_trichotomy [of a b] assms(3) by auto

lemma days_before_year_10000: "days_before_year 10000 = MAXORDINAL"
  by (simp add: days_before_year_def MAXORDINAL_def)

lemma toordinal_max: "valid_date d \<Longrightarrow> toordinal d \<le> MAXORDINAL"
  using toordinal_upper [of d] days_before_year_mono [of "Suc (year d)" 10000]
    valid_dateD [of d] days_before_year_10000 by simp


lemma date_less_asym: "date_less a b \<Longrightarrow> \<not> date_less b a"
  by (auto simp: date_less_def)

lemma date_less_year: "date_less a b \<Longrightarrow> year a \<le> year b"
  by (auto simp: date_less_def)

lemma days_in_month_pos: "1 \<le> days_in_month y m"
  by (simp add: days_in_month_def)

lemma next_day_Inr:
  assumes "valid_date d" "next_day d = Inr d'"
  shows "valid_date d' \<and> toordinal d' = Suc (toordinal d)"
proof -
  note v = valid_dateD [OF assms(1)]
  consider (a) "day d < days_in_month (year d) (month d)"
    | (b) "day d = days_in_month (year d) (month d)" "month d < 12"
    | (c) "day d = days_in_month (year d) (month d)" "month d = 12" "year d < 9999"
    | (d) "day d = days_in_month (year d) (month d)" "month d = 12" "year d = 9999"
    using v by linarith
  then show ?thesis
  proof cases
    case a
    then have "d' = d\<lparr>day := day d + 1\<rparr>" using assms(2) by (simp add: next_day_def)
    then show ?thesis using v a
      by (simp add: valid_date_def check_date_fields_def MINYEAR_def MAXYEAR_def toordinal_def)
  next
    case b
    then have d': "d' = d\<lparr>month := month d + 1, day := 1\<rparr>"
      using assms(2) by (simp add: next_day_def)
    have "days_before_month (year d) (Suc (month d))
            = days_before_month (year d) (month d) + day d"
      using days_before_month_Suc [of "month d" "year d"] v b by simp
    then show ?thesis using v b days_in_month_pos [of "year d" "Suc (month d)"]
      by (simp add: d' valid_date_def check_date_fields_def MINYEAR_def MAXYEAR_def
          toordinal_def)
  next
    case c
    then have d': "d' = \<lparr>year = year d + 1, month = 1, day = 1\<rparr>"
      using assms(2) by (simp add: next_day_def MAXYEAR_def)
    have "days_before_month (year d) 12 + day d = (if is_leap (year d) then 366 else 365)"
      using days_before_month_12 [of "year d"] c by simp
    moreover have "days_before_month (Suc (year d)) 1 = 0"
      by (simp add: days_before_month_def DAYS_BEFORE_MONTH_def)
    moreover have "days_in_month (Suc (year d)) 1 = 31" by (simp add: days_in_month_def)
    ultimately show ?thesis using v c days_before_year_Suc [of "year d"]
      by (simp add: d' valid_date_def check_date_fields_def MINYEAR_def MAXYEAR_def
          toordinal_def days_in_month_def)
  next
    case d
    then show ?thesis using assms(2) by (simp add: next_day_def MAXYEAR_def)
  qed
qed

lemma next_day_Inl:
  assumes "valid_date d" "next_day d = Inl e"
  shows "e = OverflowError \<and> toordinal d = MAXORDINAL"
proof -
  note v = valid_dateD [OF assms(1)]
  have m: "month d = 12" and y: "year d = 9999"
    and dd: "day d = days_in_month (year d) (month d)" and e: "e = OverflowError"
    using assms(2) v by (auto simp: next_day_def MAXYEAR_def split: if_splits)
  have "days_before_month 9999 12 + day d = 365"
    using dd m y by (simp add: days_before_month_def DAYS_BEFORE_MONTH_def days_in_month_def
        is_leap_def)
  moreover have "days_before_year 9999 + 365 = MAXORDINAL"
    by (simp add: days_before_year_def MAXORDINAL_def)
  ultimately show ?thesis using e m y by (simp add: toordinal_def)
qed

lemma iterate_next_day:
  assumes "valid_date d"
  shows "(\<forall>d'. iterate_day next_day k d = Inr d'
            \<longrightarrow> valid_date d' \<and> toordinal d' = toordinal d + k)
       \<and> (\<forall>e. iterate_day next_day k d = Inl e
            \<longrightarrow> e = OverflowError \<and> MAXORDINAL < toordinal d + k)"
  using assms
proof (induction k arbitrary: d)
  case 0
  then show ?case by simp
next
  case (Suc k)
  show ?case
  proof (cases "next_day d")
    case (Inl e)
    then show ?thesis using next_day_Inl [OF Suc.prems Inl] by simp
  next
    case (Inr d1)
    then show ?thesis using next_day_Inr [OF Suc.prems Inr] Suc.IH [of d1] by simp
  qed
qed

lemma replace_year_Inr:
  assumes "valid_date d" "0 < n" "replace_year d (int (year d) + n) = Inr c"
  shows "valid_date c \<and> date_less d c \<and> check_date_fields (int (year d) + n) (month d) (day d)
         \<and> c = d\<lparr>year := nat (int (year d) + n)\<rparr>"
  using assms
  by (auto simp: replace_year_def valid_date_def date_less_def split: if_splits)

lemma leap_day_only:
  assumes "valid_date d" "0 < n" "int (year d) + n \<le> 9999"
    and "\<not> check_date_fields (int (year d) + n) (month d) (day d)"
  shows "month d = 2 \<and> day d = 29"
proof -
  note v = valid_dateD [OF assms(1)]
  have "days_in_month (nat (int (year d) + n)) (month d) < day d"
    using assms v by (simp add: check_date_fields_def MINYEAR_def MAXYEAR_def)
  then show ?thesis using v by (auto simp: days_in_month_def split: if_splits)
qed

lemma advance_Inr:
  assumes "valid_date d" "0 < n" "advance d n = Inr c"
  shows "valid_date c \<and> date_less d c
       \<and> (if check_date_fields (int (year d) + n) (month d) (day d)
          then c = d\<lparr>year := nat (int (year d) + n)\<rparr>
          else int (toordinal c) = int (toordinal d) + 365 * n)"
proof (cases "replace_year d (int (year d) + n)")
  case (Inr c')
  then have "replace_year d (int (year d) + n) = Inr c"
    using assms(3) by (simp add: advance_def)
  from replace_year_Inr [OF assms(1,2) this] show ?thesis by auto
next
  case (Inl e)
  then have nc: "\<not> check_date_fields (int (year d) + n) (month d) (day d)"
    and e: "e = ValueError"
    by (auto simp: replace_year_def split: if_splits)
  then have "iterate_day next_day (nat (365 * n)) d = Inr c"
    using assms(2,3) Inl by (simp add: advance_def add_days_def)
  then have c: "valid_date c" "toordinal c = toordinal d + nat (365 * n)"
    using iterate_next_day [OF assms(1), of "nat (365 * n)"] by simp_all
  then have "toordinal d < toordinal c" using assms(2) by simp
  then have "date_less d c" using toordinal_less_iff [OF assms(1) c(1)] by simp
  then show ?thesis using c nc assms(2) by simp
qed

lemma advance_Inl:
  assumes "valid_date d" "0 < n" "advance d n = Inl e"
  shows "e = OverflowError \<and> 9999 < int (year d) + n"
proof (cases "replace_year d (int (year d) + n)")
  case (Inr c')
  then show ?thesis using assms(3) by (simp add: advance_def)
next
  case (Inl e')
  then have nc: "\<not> check_date_fields (int (year d) + n) (month d) (day d)"
    and e': "e' = ValueError"
    by (auto simp: replace_year_def split: if_splits)
  then have it: "iterate_day next_day (nat (365 * n)) d = Inl e"
    using assms(2,3) Inl by (simp add: advance_def add_days_def)
  then have e: "e = OverflowError" and big: "MAXORDINAL < toordinal d + nat (365 * n)"
    using iterate_next_day [OF assms(1), of "nat (365 * n)"] by simp_all
  have "9999 < int (year d) + n"
  proof (rule ccontr)
    assume "\<not> 9999 < int (year d) + n"
    then have le: "int (year d) + n \<le> 9999" by simp
    note v = valid_dateD [OF assms(1)]
    have md: "month d = 2" "day d = 29" using leap_day_only [OF assms(1,2) le nc] by simp_all
    have "toordinal d = days_before_year (year d) + 60"
      by (simp add: toordinal_def md days_before_month_def DAYS_BEFORE_MONTH_def)
    moreover have "days_before_year (year d) + 365 * nat n \<le> days_before_year (year d + nat n)"
      using days_before_year_add v by simp
    moreover have "year d + nat n \<le> 9999" using le assms(2) by linarith
    then have "days_before_year (Suc (year d + nat n)) \<le> days_before_year 10000"
      using days_before_year_mono [of "Suc (year d + nat n)" 10000] by simp
    moreover have "days_before_year (year d + nat n) + 365 \<le> days_before_year (Suc (year d + nat n))"
      using days_before_year_Suc [of "year d + nat n"] v by simp
    moreover have "nat (365 * n) = 365 * nat n" using assms(2) by (simp add: nat_mult_distrib)
    ultimately show False using big days_before_year_10000 by simp
  qed
  then show ?thesis using e by simp
qed

lemma split_loop_done:
  "\<not> date_less current_start end_date
     \<Longrightarrow> split_loop current_start end_date n result = Some (Inr result)"
  by (subst split_loop.simps) simp

lemma split_loop_raise:
  "date_less current_start end_date \<Longrightarrow> advance current_start n = Inl e
     \<Longrightarrow> split_loop current_start end_date n result = Some (Inl e)"
  by (subst split_loop.simps) simp

lemma split_loop_step:
  "date_less current_start end_date \<Longrightarrow> advance current_start n = Inr c
     \<Longrightarrow> split_loop current_start end_date n result
         = split_loop (if date_less end_date c then end_date else c) end_date n
             (result @ [(current_start, if date_less end_date c then end_date else c)])"
  by (subst split_loop.simps) (simp add: Let_def)

lemma split_loop_total:
  assumes "valid_date end_date" "0 < n"
  shows "valid_date cur \<Longrightarrow> \<not> date_less end_date cur \<Longrightarrow>
         \<exists>r. split_loop cur end_date n acc = Some r \<and>
           (case r of
              Inl err \<Rightarrow> err = OverflowError \<and> 9999 < int (year end_date) + n
            | Inr res \<Rightarrow> \<exists>ws. res = acc @ ws \<and> linked cur ws end_date
                 \<and> (\<forall>w\<in>set ws. within_span n w \<and> valid_date (fst w) \<and> valid_date (snd w))
                 \<and> (\<forall>w\<in>set (butlast ws). full_span n w))"
proof (induction "toordinal end_date - toordinal cur" arbitrary: cur acc rule: less_induct)
  case less
  show ?case
  proof (cases "date_less cur end_date")
    case False
    then have "cur = end_date" using less.prems(2) date_trichotomy [of cur end_date] by simp
    then show ?thesis using split_loop_done [OF False, of n acc] by simp
  next
    case True
    show ?thesis
    proof (cases "advance cur n")
      case (Inl e)
      have "e = OverflowError" "9999 < int (year cur) + n"
        using advance_Inl [OF less.prems(1) assms(2) Inl] by simp_all
      moreover have "year cur \<le> year end_date" by (rule date_less_year [OF True])
      ultimately show ?thesis using split_loop_raise [OF True Inl, of acc] by simp
    next
      case (Inr c)
      define c' where "c' = (if date_less end_date c then end_date else c)"
      note adv = advance_Inr [OF less.prems(1) assms(2) Inr]
      have vc': "valid_date c'" using adv assms(1) by (simp add: c'_def)
      have lt: "date_less cur c'" using adv True by (simp add: c'_def)
      have nle: "\<not> date_less end_date c'" by (simp add: c'_def date_less_irrefl)
      have o1: "toordinal cur < toordinal c'"
        using date_less_toordinal [OF less.prems(1) vc' lt] .
      have o2: "toordinal c' \<le> toordinal end_date"
        using toordinal_less_iff [OF assms(1) vc'] nle by simp
      have span: "within_span n (cur, c')"
      proof (cases "date_less end_date c")
        case False
        then show ?thesis using adv lt
          by (auto simp: within_span_def c'_def date_less_irrefl)
      next
        case ec: True
        have "toordinal end_date < toordinal c"
          using date_less_toordinal [OF assms(1) _ ec] adv by simp
        then show ?thesis using adv lt ec date_less_asym [OF ec]
          by (auto simp: within_span_def c'_def)
      qed
      have step: "split_loop cur end_date n acc
                    = split_loop c' end_date n (acc @ [(cur, c')])"
        using split_loop_step [OF True Inr, of acc] by (simp add: c'_def)
      have m: "toordinal end_date - toordinal c' < toordinal end_date - toordinal cur"
        using o1 o2 by simp
      obtain r where r: "split_loop c' end_date n (acc @ [(cur, c')]) = Some r"
        and rr: "(case r of
              Inl err \<Rightarrow> err = OverflowError \<and> 9999 < int (year end_date) + n
            | Inr res \<Rightarrow> \<exists>ws. res = (acc @ [(cur, c')]) @ ws \<and> linked c' ws end_date
                 \<and> (\<forall>w\<in>set ws. within_span n w \<and> valid_date (fst w) \<and> valid_date (snd w))
                 \<and> (\<forall>w\<in>set (butlast ws). full_span n w))"
        using less.hyps [OF m vc' nle, of "acc @ [(cur, c')]"] by blast
      show ?thesis
      proof (cases r)
        case (Inl err)
        then show ?thesis using r rr step by simp
      next
        case (Inr res)
        then obtain ws where ws: "res = (acc @ [(cur, c')]) @ ws" "linked c' ws end_date"
          "\<forall>w\<in>set ws. within_span n w \<and> valid_date (fst w) \<and> valid_date (snd w)"
          "\<forall>w\<in>set (butlast ws). full_span n w"
          using rr by auto
        have full: "full_span n (cur, c')" if "ws \<noteq> []"
        proof -
          have "c' \<noteq> end_date"
          proof
            assume "c' = end_date"
            then have "split_loop c' end_date n (acc @ [(cur, c')]) = Some (Inr (acc @ [(cur, c')]))"
              using split_loop_done [of end_date end_date n] by (simp add: date_less_irrefl)
            then show False using r Inr ws(1) that by simp
          qed
          then have "c' = c" by (simp add: c'_def split: if_splits)
          then show ?thesis using adv by (simp add: full_span_def)
        qed
        have "res = acc @ ((cur, c') # ws)" using ws(1) by simp
        moreover have "linked cur ((cur, c') # ws) end_date" using ws(2) by simp
        moreover have "\<forall>w\<in>set ((cur, c') # ws).
            within_span n w \<and> valid_date (fst w) \<and> valid_date (snd w)"
          using ws(3) span less.prems(1) vc' by simp
        moreover have "\<forall>w\<in>set (butlast ((cur, c') # ws)). full_span n w"
          using ws(4) full by simp
        ultimately have "\<exists>ws. res = acc @ ws \<and> linked cur ws end_date
            \<and> (\<forall>w\<in>set ws. within_span n w \<and> valid_date (fst w) \<and> valid_date (snd w))
            \<and> (\<forall>w\<in>set (butlast ws). full_span n w)"
          by blast
        moreover have "split_loop cur end_date n acc = Some (Inr res)"
          using r step Inr by simp
        ultimately show ?thesis by simp
      qed
    qed
  qed
qed

lemma linked_props:
  "linked s ws e \<Longrightarrow> ws \<noteq> [] \<Longrightarrow>
     fst (hd ws) = s \<and> snd (last ws) = e
     \<and> (\<forall>i. Suc i < length ws \<longrightarrow> snd (ws ! i) = fst (ws ! Suc i))"
proof (induction ws arbitrary: s)
  case Nil
  then show ?case by simp
next
  case (Cons w ws)
  show ?case
  proof (cases ws)
    case Nil
    then show ?thesis using Cons.prems by simp
  next
    case (Cons w' ws')
    then have ih: "fst (hd ws) = snd w" "snd (last ws) = e"
      "\<forall>i. Suc i < length ws \<longrightarrow> snd (ws ! i) = fst (ws ! Suc i)"
      using Cons.IH [of "snd w"] Cons.prems by simp_all
    have "\<forall>i. Suc i < length (w # ws) \<longrightarrow> snd ((w # ws) ! i) = fst ((w # ws) ! Suc i)"
    proof (intro allI impI)
      fix i assume "Suc i < length (w # ws)"
      then show "snd ((w # ws) ! i) = fst ((w # ws) ! Suc i)"
        using ih(1,3) Cons by (cases i) simp_all
    qed
    then show ?thesis using ih Cons.prems Cons by simp
  qed
qed


lemma add_days_overflow:
  assumes "valid_date d" "0 \<le> k" "int MAXORDINAL < int (toordinal d) + k"
  shows "add_days d k = Inl OverflowError"
proof (cases "iterate_day next_day (nat k) d")
  case (Inl e)
  then show ?thesis using iterate_next_day [OF assms(1), of "nat k"] assms(2)
    by (simp add: add_days_def)
next
  case (Inr d')
  then have "valid_date d'" "toordinal d' = toordinal d + nat k"
    using iterate_next_day [OF assms(1), of "nat k"] by simp_all
  then show ?thesis using toordinal_max [of d'] assms(2,3) by simp
qed

lemmas date_eval = valid_date_def check_date_fields_def MINYEAR_def MAXYEAR_def
  days_in_month_def is_leap_def date_less_def replace_year_def advance_def mkdate_def

lemma split_loop_unfold:
  "date_less current_start end_date \<Longrightarrow>
   split_loop current_start end_date n result =
     (case advance current_start n of
        Inl e \<Rightarrow> Some (Inl e)
      | Inr c \<Rightarrow>
          split_loop (if date_less end_date c then end_date else c) end_date n
            (result @ [(current_start, if date_less end_date c then end_date else c)]))"
  by (subst split_loop.simps) (simp add: Let_def split: sum.splits)


section \<open>Properties of the splitter\<close>

lemma split_date_range_total:
  assumes "valid_date start_date" "valid_date end_date" "0 < n"
    and "\<not> date_less end_date start_date"
  shows "\<exists>r. split_date_range start_date end_date n = Some r \<and>
           (case r of
              Inl err \<Rightarrow> err = OverflowError \<and> 9999 < int (year end_date) + n
            | Inr ws \<Rightarrow> linked start_date ws end_date
                 \<and> (\<forall>w\<in>set ws. within_span n w \<and> valid_date (fst w) \<and> valid_date (snd w))
                 \<and> (\<forall>w\<in>set (butlast ws). full_span n w))"
proof -
  obtain r where r: "split_loop start_date end_date n [] = Some r"
    and rr: "(case r of
              Inl err \<Rightarrow> err = OverflowError \<and> 9999 < int (year end_date) + n
            | Inr res \<Rightarrow> \<exists>ws. res = [] @ ws \<and> linked start_date ws end_date
                 \<and> (\<forall>w\<in>set ws. within_span n w \<and> valid_date (fst w) \<and> valid_date (snd w))
                 \<and> (\<forall>w\<in>set (butlast ws). full_span n w))"
    using split_loop_total [OF assms(2,3,1,4), of "[]"] by blast
  show ?thesis
    unfolding split_date_range_def r using rr by (cases r) simp_all
qed

lemma linked_nonempty: "linked s ws e \<Longrightarrow> s \<noteq> e \<Longrightarrow> ws \<noteq> []"
  by (cases ws) simp_all

text \<open>
  C1, as amended. For valid dates \<open>start < end\<close> and \<open>interval_years > 0\<close> the call ends.
  It returns a window list whenever the year of \<open>end\<close> plus \<open>interval_years\<close> does not
  exceed 9999, and otherwise returns a list or raises \<open>OverflowError\<close>. A returned list is
  not empty, its first window starts at \<open>start\<close>, its last window ends at \<open>end\<close>, and each
  window ends where the next one starts.
\<close>

theorem split_date_range_coverage:
  assumes "valid_date start_date" "valid_date end_date" "date_less start_date end_date"
    and "0 < interval_years"
  shows "\<exists>r. split_date_range start_date end_date interval_years = Some r \<and>
           (int (year end_date) + interval_years \<le> 9999 \<longrightarrow> (\<exists>ws. r = Inr ws)) \<and>
           (case r of
              Inl err \<Rightarrow> err = OverflowError
            | Inr ws \<Rightarrow> ws \<noteq> [] \<and> fst (hd ws) = start_date \<and> snd (last ws) = end_date
                 \<and> (\<forall>i. Suc i < length ws \<longrightarrow> snd (ws ! i) = fst (ws ! Suc i)))"
proof -
  have ne: "start_date \<noteq> end_date" using assms(3) date_less_irrefl by auto
  have nl: "\<not> date_less end_date start_date" using date_less_asym [OF assms(3)] .
  obtain r where r: "split_date_range start_date end_date interval_years = Some r"
    and rr: "(case r of
              Inl err \<Rightarrow> err = OverflowError \<and> 9999 < int (year end_date) + interval_years
            | Inr ws \<Rightarrow> linked start_date ws end_date
                 \<and> (\<forall>w\<in>set ws. within_span interval_years w
                        \<and> valid_date (fst w) \<and> valid_date (snd w))
                 \<and> (\<forall>w\<in>set (butlast ws). full_span interval_years w))"
    using split_date_range_total [OF assms(1,2,4) nl] by blast
  show ?thesis
  proof (cases r)
    case (Inl err)
    then show ?thesis using r rr by simp
  next
    case (Inr ws)
    then have l: "linked start_date ws end_date" using rr by simp
    then have "ws \<noteq> []" using linked_nonempty ne by blast
    then show ?thesis using r Inr linked_props [OF l] by simp
  qed
qed

theorem split_date_range_coverage_witness:
  "\<exists>r. split_date_range (mkdate 1 1 2000) (mkdate 15 6 2012) 5 = Some r \<and>
     (\<exists>ws. r = Inr ws) \<and>
     (case r of
        Inl err \<Rightarrow> err = OverflowError
      | Inr ws \<Rightarrow> ws \<noteq> [] \<and> fst (hd ws) = mkdate 1 1 2000 \<and> snd (last ws) = mkdate 15 6 2012
           \<and> (\<forall>i. Suc i < length ws \<longrightarrow> snd (ws ! i) = fst (ws ! Suc i)))"
  using split_date_range_coverage [of "mkdate 1 1 2000" "mkdate 15 6 2012" 5]
  by (simp add: date_eval)

theorem split_date_range_overflow_counterexample:
  "valid_date (mkdate 1 1 9998) \<and> valid_date (mkdate 31 12 9999)
   \<and> date_less (mkdate 1 1 9998) (mkdate 31 12 9999)
   \<and> split_date_range (mkdate 1 1 9998) (mkdate 31 12 9999) 5 = Some (Inl OverflowError)"
proof -
  have "add_days (mkdate 1 1 9998) (365 * 5) = Inl OverflowError"
    by (rule add_days_overflow)
       (simp_all add: date_eval toordinal_def days_before_year_def days_before_month_def
          DAYS_BEFORE_MONTH_def MAXORDINAL_def)
  then show ?thesis
    by (simp add: split_date_range_def split_loop_unfold split_loop_done date_eval)
qed

text \<open>
  C2. For valid dates \<open>start < end\<close> and \<open>interval_years > 0\<close> the call ends, and every
  window \<open>(a, b)\<close> of a returned list has \<open>a < b\<close> and ends no later than \<open>a\<close> with its year
  advanced by \<open>interval_years\<close>, or, when that date does not exist, no later than
  \<open>365 * interval_years\<close> days after \<open>a\<close>; every window but the last ends exactly there.
\<close>

theorem split_date_range_window_bound:
  assumes "valid_date start_date" "valid_date end_date" "date_less start_date end_date"
    and "0 < interval_years"
  shows "\<exists>r. split_date_range start_date end_date interval_years = Some r \<and>
           (case r of
              Inl err \<Rightarrow> True
            | Inr ws \<Rightarrow> (\<forall>w\<in>set ws. within_span interval_years w)
                 \<and> (\<forall>w\<in>set (butlast ws). full_span interval_years w))"
proof -
  have nl: "\<not> date_less end_date start_date" using date_less_asym [OF assms(3)] .
  obtain r where r: "split_date_range start_date end_date interval_years = Some r"
    and rr: "(case r of
              Inl err \<Rightarrow> err = OverflowError \<and> 9999 < int (year end_date) + interval_years
            | Inr ws \<Rightarrow> linked start_date ws end_date
                 \<and> (\<forall>w\<in>set ws. within_span interval_years w
                        \<and> valid_date (fst w) \<and> valid_date (snd w))
                 \<and> (\<forall>w\<in>set (butlast ws). full_span interval_years w))"
    using split_date_range_total [OF assms(1,2,4) nl] by blast
  show ?thesis using r rr by (cases r) simp_all
qed

lemma add_days_eq:
  assumes "valid_date d" "valid_date d'" "0 \<le> k"
    and "int (toordinal d') = int (toordinal d) + k"
  shows "add_days d k = Inr d'"
proof (cases "iterate_day next_day (nat k) d")
  case (Inl e)
  then have "MAXORDINAL < toordinal d + nat k"
    using iterate_next_day [OF assms(1), of "nat k"] by simp
  then show ?thesis using toordinal_max [OF assms(2)] assms(3,4) by simp
next
  case (Inr d'')
  then have "valid_date d''" "toordinal d'' = toordinal d + nat k"
    using iterate_next_day [OF assms(1), of "nat k"] by simp_all
  then have "d'' = d'" using toordinal_inj [of d'' d'] assms(2,3,4) by simp
  then show ?thesis using Inr assms(3) by (simp add: add_days_def)
qed

lemmas ordinal_eval = toordinal_def days_before_year_def days_before_month_def
  DAYS_BEFORE_MONTH_def MAXORDINAL_def

lemma split_2016_2024:
  "split_date_range (mkdate 29 2 2016) (mkdate 29 2 2024) 4
     = Some (Inr [(mkdate 29 2 2016, mkdate 29 2 2020), (mkdate 29 2 2020, mkdate 29 2 2024)])"
  by (simp add: split_date_range_def split_loop_unfold split_loop_done date_eval)

lemma plus_1460_days: "add_days (mkdate 29 2 2016) (365 * 4) = Inr (mkdate 28 2 2020)"
  by (rule add_days_eq) (simp_all add: date_eval ordinal_eval)

theorem split_date_range_window_bound_witness:
  "\<exists>r. split_date_range (mkdate 29 2 2016) (mkdate 29 2 2024) 3 = Some r \<and>
     (case r of
        Inl err \<Rightarrow> True
      | Inr ws \<Rightarrow> (\<forall>w\<in>set ws. within_span 3 w) \<and> (\<forall>w\<in>set (butlast ws). full_span 3 w))"
  using split_date_range_window_bound [of "mkdate 29 2 2016" "mkdate 29 2 2024" 3]
  by (simp add: date_eval)

text \<open>
  C3, as amended. With start 29/02/2016, end 29/02/2024 and \<open>interval_years = 4\<close> the
  fallback is not used: 2020 is a leap year, so advancing 29/02/2016 by 4 years gives the
  valid date 29/02/2020 and \<open>replace\<close> raises nothing. The call returns the two windows
  (29/02/2016, 29/02/2020) and (29/02/2020, 29/02/2024). The date 1460 days after
  29/02/2016 is 28/02/2020.
\<close>

theorem split_date_range_leap_day:
  "replace_year (mkdate 29 2 2016) (2016 + 4) = Inr (mkdate 29 2 2020)
   \<and> advance (mkdate 29 2 2016) 4 = Inr (mkdate 29 2 2020)
   \<and> split_date_range (mkdate 29 2 2016) (mkdate 29 2 2024) 4
       = Some (Inr [(mkdate 29 2 2016, mkdate 29 2 2020), (mkdate 29 2 2020, mkdate 29 2 2024)])
   \<and> add_days (mkdate 29 2 2016) (365 * 4) = Inr (mkdate 28 2 2020)"
  using split_2016_2024 plus_1460_days by (simp add: date_eval)

theorem split_date_range_leap_day_counterexample:
  "split_date_range (mkdate 29 2 2016) (mkdate 29 2 2024) 4
     = Some (Inr [(mkdate 29 2 2016, mkdate 29 2 2020), (mkdate 29 2 2020, mkdate 29 2 2024)])
   \<and> add_days (mkdate 29 2 2016) (365 * 4) \<noteq> Inr (mkdate 29 2 2020)"
  using split_2016_2024 plus_1460_days by (simp add: mkdate_def)

text \<open>
  C10. When \<open>start_date\<close> is not before \<open>end_date\<close>, \<open>split_date_range\<close> returns the empty
  list, whatever \<open>interval_years\<close> is: no window and no error.
\<close>

theorem split_date_range_empty:
  assumes "\<not> date_less start_date end_date"
  shows "split_date_range start_date end_date interval_years = Some (Inr [])"
  using assms by (simp add: split_date_range_def split_loop_done)

theorem split_date_range_empty_witness:
  "\<not> date_less (mkdate 1 1 2030) (mkdate 1 1 2000)
   \<and> split_date_range (mkdate 1 1 2030) (mkdate 1 1 2000) 5 = Some (Inr [])
   \<and> split_date_range (mkdate 1 1 2000) (mkdate 1 1 2000) 5 = Some (Inr [])"
  using split_date_range_empty [of "mkdate 1 1 2030" "mkdate 1 1 2000" 5]
    split_date_range_empty [of "mkdate 1 1 2000" "mkdate 1 1 2000" 5]
  by (simp add: date_less_def mkdate_def)

section \<open>Properties of the adapters\<close>

lemma select_rows_map: "select_rows (map P xs) (map f xs) = map f (filter P xs)"
  by (induction xs) (simp_all add: select_rows_def)

lemma convert_all_map:
  "(\<forall>x\<in>set xs. f x = Inr (g x)) \<Longrightarrow> convert_all f xs = Inr (map g xs)"
  by (induction xs) simp_all

text \<open>
  C9. \<open>coleta_ibge_sidra\<close> drops the rows whose value is \<open>Valor\<close>, \<open>...\<close> or \<open>-\<close> before the
  numeric coercion: for a fetched table with the rows \<open>rows\<close> (period, value), the result
  holds exactly the other rows, in order, with their values coerced, provided the coercion
  reads the values that are kept; the dropped values never reach it.
\<close>

theorem coleta_ibge_sidra_placeholders:
  assumes "nome \<noteq> ''data''"
    and "read (reads s) (Read_json (codigo @ ''?formato=json'')) = Returns (sidra_json rows)"
    and "\<forall>r\<in>set rows. snd r \<noteq> ''Valor'' \<and> snd r \<noteq> ''...'' \<and> snd r \<noteq> ''-''
           \<longrightarrow> to_numeric L (Str (snd r)) = Inr (Num (val (snd r)))"
  shows "\<exists>df. fst (coleta_ibge_sidra L read codigo nome s) = Inr df \<and>
           cols df =
             [(''data'', map (\<lambda>r. Str (fst r))
                           (filter (\<lambda>r. snd r \<noteq> ''Valor'' \<and> snd r \<noteq> ''...'' \<and> snd r \<noteq> ''-'') rows)),
              (nome, map (\<lambda>r. Num (val (snd r)))
                           (filter (\<lambda>r. snd r \<noteq> ''Valor'' \<and> snd r \<noteq> ''...'' \<and> snd r \<noteq> ''-'') rows))]"
proof -
  let ?keep = "\<lambda>r::string \<times> string. snd r \<noteq> ''Valor'' \<and> snd r \<noteq> ''...'' \<and> snd r \<noteq> ''-''"
  let ?kept = "filter ?keep rows"
  let ?df = "df_filter [''data'', nome]
               (df_rename [(''D3C'', ''data''), (''V'', nome)] (sidra_json rows))"
  have df: "cols ?df = [(''data'', map (\<lambda>r. Str (fst r)) rows), (nome, map (\<lambda>r. Str (snd r)) rows)]"
    using assms(1) by (simp add: df_filter_def df_rename_def sidra_json_def)
  have col: "df_getitem ?df nome = Inr (map (\<lambda>r. Str (snd r)) rows)"
    using assms(1) by (simp add: df_getitem_def df)
  have m: "map Not (isin (map (\<lambda>r. Str (snd r)) rows) placeholders) = map ?keep rows"
    by (simp add: isin_def placeholders_def)
  let ?df2 = "df_mask ?df (map ?keep rows)"
  have df2: "cols ?df2 = [(''data'', map (\<lambda>r. Str (fst r)) ?kept), (nome, map (\<lambda>r. Str (snd r)) ?kept)]"
    by (simp add: df_mask_def df select_rows_map)
  have col2: "df_getitem ?df2 nome = Inr (map (\<lambda>r. Str (snd r)) ?kept)"
    using assms(1) by (simp add: df_getitem_def df2)
  have conv: "convert_all (to_numeric L) (map (\<lambda>r. Str (snd r)) ?kept)
                = Inr (map (\<lambda>r. Num (val (snd r))) ?kept)"
    using assms(3) convert_all_map [of "map (\<lambda>r. Str (snd r)) ?kept" "to_numeric L" "\<lambda>c. case c of Str v \<Rightarrow> Num (val v) | _ \<Rightarrow> c"]
    by (simp add: comp_def)
  have set: "cols (df_setitem ?df2 nome (map (\<lambda>r. Num (val (snd r))) ?kept))
      = [(''data'', map (\<lambda>r. Str (fst r)) ?kept), (nome, map (\<lambda>r. Num (val (snd r))) ?kept)]"
    using assms(1) by (simp add: df_setitem_def df2)
  show ?thesis
    using assms(2) col m col2 conv set
    by (simp add: coleta_ibge_sidra_def read_once_def print_coletando_def Let_def)
qed


theorem coleta_ibge_sidra_placeholders_witness:
  "''ipca'' \<noteq> ''data'' \<and>
   (\<exists>df. fst (coleta_ibge_sidra pandas_example sidra_example ''t1737'' ''ipca'' io_init) = Inr df
      \<and> cols df = [(''data'', [Str ''2020-01'']), (''ipca'', [Num 100])])"
  using coleta_ibge_sidra_placeholders
    [of "''ipca''" sidra_example io_init "''t1737''"
        "[(''2020-01'', ''100''), (''2020-02'', ''...''), (''2020-03'', ''-'')]"
        pandas_example "\<lambda>v. 100"]
  by (simp add: sidra_example_def pandas_example_def)

lemma ler_csv_always_fails:
  "fst (ler_csv always_fails req s) = Inr None \<and> reads (snd (ler_csv always_fails req s)) = reads s + 5"
  using ler_csv_loop_exhaust [of always_fails req 0 s]
  by (simp add: ler_csv_def always_fails_def max_tentativas_def)

text \<open>
  C6. When every read fails, \<open>ler_csv\<close> returns \<open>None\<close> after 5 reads, the \<open>try\<close> block of
  \<open>coleta_bcb_odata\<close> ends without an exception, and the \<open>else\<close> branch calls \<open>rename\<close> on
  \<open>None\<close>: the caller sees \<open>AttributeError\<close>, not \<open>Falha_na_coleta codigo nome\<close>.
\<close>

theorem coleta_bcb_odata_no_data:
  "fst (coleta_bcb_odata always_fails codigo nome s) = Inl AttributeError
   \<and> reads (snd (coleta_bcb_odata always_fails codigo nome s)) = reads s + 5"
proof -
  obtain r s' where r: "ler_csv always_fails (Read_csv codigo) (print_coletando codigo nome s) = (r, s')"
    by fastforce
  then have "r = Inr None" "reads s' = reads s + 5"
    using ler_csv_always_fails [of "Read_csv codigo" "print_coletando codigo nome s"]
    by (simp_all add: print_coletando_def)
  then show ?thesis using r by (simp add: coleta_bcb_odata_def rename_method_def)
qed

section \<open>Properties of the collection script\<close>

lemma query_api_unselected:
  assumes "\<not> selected r"
    and "fonte \<in> {''BCB/SGS'', ''BCB/ODATA'', ''IPEADATA'', ''IBGE/SIDRA'', ''FRED''}"
  shows "query_api fonte (xs @ r # ys) = query_api fonte (xs @ ys)"
  using assms unfolding selected_def query_api_def by auto

lemma filter_ifi_unselected:
  assumes "\<not> selected r"
  shows "filter (\<lambda>r. Fonte r = ''IFI'') (xs @ r # ys) = filter (\<lambda>r. Fonte r = ''IFI'') (xs @ ys)"
  using assms unfolding selected_def by simp

text \<open>
  C8, as amended. A row that is not selected (its source is none of the six, or it belongs
  to one of the five API sources with a collection method other than \<open>API\<close>) is not
  collected: the run with the row and the run without it give the same result and the
  same state, so no adapter is called for it, no list receives an entry and no error
  comes from it.
\<close>

theorem coleta_script_skips_unselected:
  assumes "\<not> selected r"
  shows "coleta_script L read data_fim (xs @ r # ys) s = coleta_script L read data_fim (xs @ ys) s"
  unfolding coleta_script_def section_bcb_sgs_def section_bcb_odata_def section_ipeadata_def
    section_ibge_sidra_def section_fred_def section_ifi_def
  by (simp only: query_api_unselected [OF assms] filter_ifi_unselected [OF assms]
      insert_iff simp_thms)

theorem coleta_script_skips_unselected_witness:
  "\<not> selected row_manual \<and>
   coleta_script pandas_example always_empty (mkdate 1 1 2028) [row_manual, row_ifi] io_init
     = coleta_script pandas_example always_empty (mkdate 1 1 2028) [row_ifi] io_init"
  using coleta_script_skips_unselected
    [of row_manual pandas_example always_empty "mkdate 1 1 2028" "[]" "[row_ifi]" io_init]
  by (simp add: selected_def row_manual_def)

lemma run_ifi_only:
  "coleta_script pandas_example always_empty (mkdate 1 1 2028) [row_ifi] io_init
     = Some (Inr \<lparr>df_bruto_bcb_sgs = [(Diaria, []), (''Mensal'', []), (''Trimestral'', []), (''Anual'', [])],
                  df_bruto_bcb_odata = [],
                  df_bruto_ipeadata = [(Diaria, []), (''Mensal'', [])],
                  df_bruto_ibge_sidra = [(''Mensal'', []), (''Trimestral'', [])],
                  df_bruto_fred = [(Diaria, []), (''Mensal'', []), (''Trimestral'', [])],
                  df_bruto_ifi = empty_table\<rparr>,
             \<lparr>reads = 1, printed = [Coletando ''hiato.xlsx'' ''hiato''], slept = 0\<rparr>)"
  by (simp add: coleta_script_def section_bcb_sgs_def section_bcb_odata_def section_ipeadata_def
    section_ibge_sidra_def section_fred_def section_ifi_def query_api_def row_ifi_def then_run_def
    coleta_ifi_def read_once_def print_coletando_def always_empty_def io_init_def)

lemma run_ipea_trimestral:
  "coleta_script pandas_example always_empty (mkdate 1 1 2028) [row_ipea_trimestral, row_ifi] io_init
     = Some (Inl KeyError,
             \<lparr>reads = 1, printed = [Coletando ''PAN4_PIBPMG4'' ''pib''], slept = 0\<rparr>)"
  by (simp add: coleta_script_def section_bcb_sgs_def section_bcb_odata_def section_ipeadata_def
    section_ibge_sidra_def section_fred_def section_ifi_def query_api_def row_ifi_def
    row_ipea_trimestral_def then_run_def
    coleta_ipeadata_def read_once_def print_coletando_def always_empty_def io_init_def
    empty_table_def df_getitem_def pandas_example_def bucket_append_def Diaria_def
    df_filter_def df_rename_def)

theorem coleta_script_frequency_counterexample:
  "Frequencia row_ipea_trimestral \<notin> {Diaria, ''Mensal''}
   \<and> coleta_script pandas_example always_empty (mkdate 1 1 2028)
         [row_ipea_trimestral, row_ifi] io_init
       = Some (Inl KeyError,
               \<lparr>reads = 1, printed = [Coletando ''PAN4_PIBPMG4'' ''pib''], slept = 0\<rparr>)
   \<and> coleta_script pandas_example always_empty (mkdate 1 1 2028) [row_ifi] io_init
       \<noteq> coleta_script pandas_example always_empty (mkdate 1 1 2028)
           [row_ipea_trimestral, row_ifi] io_init"
  unfolding run_ipea_trimestral run_ifi_only
  by (simp add: row_ipea_trimestral_def Diaria_def)

section \<open>The daily SGS series over thirty years\<close>

lemma days_from_member:
  assumes "valid_date a" "toordinal a + k \<le> MAXORDINAL" "valid_date d"
    and "toordinal a \<le> toordinal d" "toordinal d \<le> toordinal a + k"
  shows "d \<in> set (days_from a k)"
  using assms
proof (induction k arbitrary: a)
  case 0
  have "toordinal a = toordinal d" using "0.prems"(4,5) by simp
  then have "a = d" by (rule toordinal_inj [OF "0.prems"(1,3)])
  then show ?case by simp
next
  case (Suc k)
  show ?case
  proof (cases "d = a")
    case True
    then show ?thesis by simp
  next
    case False
    have "toordinal a \<noteq> toordinal d"
      using toordinal_inj [OF Suc.prems(1,3)] False by blast
    then have lt: "toordinal a < toordinal d" using Suc.prems(4) by simp
    show ?thesis
    proof (cases "next_day a")
      case (Inl e)
      have "toordinal a = MAXORDINAL" using next_day_Inl [OF Suc.prems(1) Inl] by simp
      then show ?thesis using Suc.prems(2) by simp
    next
      case (Inr a')
      have a': "valid_date a'" "toordinal a' = Suc (toordinal a)"
        using next_day_Inr [OF Suc.prems(1) Inr] by simp_all
      have 1: "toordinal a' + k \<le> MAXORDINAL" using a'(2) Suc.prems(2) by simp
      have 2: "toordinal a' \<le> toordinal d" using a'(2) lt by simp
      have 3: "toordinal d \<le> toordinal a' + k" using a'(2) Suc.prems(5) by simp
      have "d \<in> set (days_from a' k)"
        by (rule Suc.IH [OF a'(1) 1 Suc.prems(3) 2 3])
      then show ?thesis using Inr by simp
    qed
  qed
qed

lemma calendar_days_member:
  assumes "valid_date a" "valid_date b" "valid_date d"
    and "\<not> date_less d a" "\<not> date_less b d"
  shows "d \<in> set (calendar_days a b)"
proof -
  have ad: "toordinal a \<le> toordinal d"
    using toordinal_less_iff [OF assms(3,1)] assms(4) by simp
  have db: "toordinal d \<le> toordinal b"
    using toordinal_less_iff [OF assms(2,3)] assms(5) by simp
  then have "\<not> date_less b a" using toordinal_less_iff [OF assms(2,1)] ad by simp
  moreover have "d \<in> set (days_from a (toordinal b - toordinal a))"
    using days_from_member [OF assms(1) _ assms(3) ad] ad db toordinal_max [OF assms(2)]
    by simp
  ultimately show ?thesis by (simp add: calendar_days_def)
qed

lemma date_not_less_trans:
  assumes "valid_date a" "valid_date b" "valid_date c"
  shows "\<not> date_less b a \<Longrightarrow> \<not> date_less c b \<Longrightarrow> \<not> date_less c a"
  using toordinal_less_iff [OF assms(2,1)] toordinal_less_iff [OF assms(3,2)]
    toordinal_less_iff [OF assms(3,1)] by simp

lemma linked_cover:
  assumes "linked s ws e"
    and "\<forall>w\<in>set ws. valid_date (fst w) \<and> valid_date (snd w)"
    and "valid_date d" "\<not> date_less d s" "\<not> date_less e d" "ws \<noteq> []"
  shows "\<exists>w\<in>set ws. \<not> date_less d (fst w) \<and> \<not> date_less (snd w) d"
  using assms
proof (induction ws arbitrary: s)
  case Nil
  then show ?case by simp
next
  case (Cons w ws)
  show ?case
  proof (cases "date_less (snd w) d")
    case False
    then show ?thesis using Cons.prems by auto
  next
    case True
    then have nd: "\<not> date_less d (snd w)" by (rule date_less_asym)
    have "ws \<noteq> []"
    proof
      assume "ws = []"
      then have "snd w = e" using Cons.prems(1) by simp
      then show False using True Cons.prems(5) by simp
    qed
    then have "\<exists>w\<in>set ws. \<not> date_less d (fst w) \<and> \<not> date_less (snd w) d"
      using Cons.IH [of "snd w"] Cons.prems nd by simp
    then show ?thesis by auto
  qed
qed

lemma first_seen_all_seen: "set xs \<subseteq> set seen \<Longrightarrow> first_seen seen xs = []"
  by (induction xs arbitrary: seen) auto

lemma first_seen_two:
  assumes "a \<noteq> b" "set xs \<subseteq> {a, b}"
  shows "first_seen [] (a # b # xs) = [a, b]"
  using assms first_seen_all_seen [of xs "[a, b]"] by simp


lemma ler_csv_first_success:
  "read (reads s) req = Returns df \<Longrightarrow> ler_csv read req s = (Inr (Some df), s\<lparr>reads := reads s + 1\<rparr>)"
  by (simp add: ler_csv_def ler_csv_loop.simps max_tentativas_def)

lemma fetch_windows_daily:
  assumes "\<forall>k a b. read k (Read_csv_sgs codigo a b) = Returns (F a b)"
  shows "fetch_windows read codigo ws acc st
           = (Inr (acc @ map (\<lambda>w. Some (F (fst w) (snd w))) ws),
              st\<lparr>reads := reads st + length ws\<rparr>)"
proof (induction ws arbitrary: acc st)
  case Nil
  show ?case by simp
next
  case (Cons w ws)
  have "ler_csv read (Read_csv_sgs codigo (fst w) (snd w)) st
          = (Inr (Some (F (fst w) (snd w))), st\<lparr>reads := reads st + 1\<rparr>)"
    using assms by (simp add: ler_csv_first_success)
  then show ?case using Cons.IH by simp
qed

lemma not_None_map_Some: "not_None (map (\<lambda>w. Some (f w)) ws) = map f ws"
  by (induction ws) (simp_all add: not_None_def)

lemma pd_concat_sgs:
  assumes "ws \<noteq> []"
  shows "pd_concat (map (\<lambda>w. Some (sgs_csv enc val (D w))) ws)
           = Inr \<lparr>index_name = None,
                  index = concat (map (\<lambda>w. RangeIndex (length (D w))) ws),
                  cols = [(''data'', concat (map (\<lambda>w. map enc (D w)) ws)),
                          (''valor'', concat (map (\<lambda>w. map (\<lambda>d. Num (val d)) (D w)) ws))]\<rparr>"
proof -
  obtain w ws' where ws: "ws = w # ws'" using assms by (cases ws) simp_all
  define frames where "frames = map (\<lambda>w. sgs_csv enc val (D w)) ws"
  have names: "concat (map (\<lambda>df. map fst (cols df)) frames)
                 = ''data'' # ''valor'' # concat (map (\<lambda>w. [''data'', ''valor'']) ws')"
    by (simp add: frames_def ws sgs_csv_def comp_def)
  have "set (concat (map (\<lambda>w. [''data'', ''valor'']) ws')) \<subseteq> {''data'', ''valor''}"
    by auto
  then have fs: "first_seen [] (concat (map (\<lambda>df. map fst (cols df)) frames))
                   = [''data'', ''valor'']"
    unfolding names by (intro first_seen_two) simp_all
  have nm: "\<forall>df\<in>set frames. index_name df = index_name (hd frames)"
    by (simp add: frames_def ws sgs_csv_def)
  have hd: "index_name (hd frames) = None" by (simp add: frames_def ws sgs_csv_def)
  have c1: "map (\<lambda>df. column_or_NaN df ''data'') frames = map (\<lambda>w. map enc (D w)) ws"
    by (simp add: frames_def column_or_NaN_def sgs_csv_def)
  have c2: "map (\<lambda>df. column_or_NaN df ''valor'') frames
              = map (\<lambda>w. map (\<lambda>d. Num (val d)) (D w)) ws"
    by (simp add: frames_def column_or_NaN_def sgs_csv_def)
  have ix: "map index frames = map (\<lambda>w. RangeIndex (length (D w))) ws"
    by (simp add: frames_def sgs_csv_def)
  have ne: "frames \<noteq> []" using assms by (simp add: frames_def)
  have "pd_concat (map (\<lambda>w. Some (sgs_csv enc val (D w))) ws)
          = Inr \<lparr>index_name = (if \<forall>df \<in> set frames. index_name df = index_name (hd frames)
                                then index_name (hd frames) else None),
                 index = concat (map index frames),
                 cols = map (\<lambda>c. (c, concat (map (\<lambda>df. column_or_NaN df c) frames)))
                          (first_seen [] (concat (map (\<lambda>df. map fst (cols df)) frames)))\<rparr>"
    unfolding pd_concat_def not_None_map_Some Let_def frames_def [symmetric]
    using ne by (simp only: if_False)
  then show ?thesis
    unfolding fs ix using nm hd c1 c2 by simp
qed

lemma convert_all_enc:
  assumes "\<forall>d. f (enc d) = Inr (g d)"
  shows "convert_all f (map enc days) = Inr (map g days)"
  using assms by (induction days) simp_all

lemma sgs_normalize_daily:
  assumes "nome \<noteq> ''data''" "\<forall>d. to_datetime L (enc d) = Inr (Day d)"
  shows "sgs_normalize L nome
           \<lparr>index_name = None, index = ix,
            cols = [(''data'', map enc days), (''valor'', vs)]\<rparr>
           = Inr \<lparr>index_name = Some ''data'', index = map Day days, cols = [(nome, vs)]\<rparr>"
  using assms convert_all_enc [of "to_datetime L" enc Day days]
  by (simp add: sgs_normalize_def df_rename_def df_getattr_def df_setitem_def df_set_index_def)


lemma plus_years_0: "plus_years s 0 = s"
  by (simp add: plus_years_def)

lemma date_less_plus_years: "date_less (plus_years s j) (plus_years s k) \<longleftrightarrow> j < k"
  by (auto simp: date_less_def plus_years_def)

lemma february_day:
  assumes "valid_date s" "valid_date (plus_years s 30)" "month s = 2"
  shows "day s \<le> 28"
proof (cases "is_leap (year s)")
  case False
  then show ?thesis using valid_dateD [OF assms(1)] assms(3) by (simp add: days_in_month_def)
next
  case True
  then have "year s mod 4 = 0" by (simp add: is_leap_def)
  then have "(year s + 30) mod 4 \<noteq> 0" by presburger
  then have "\<not> is_leap (year s + 30)" by (simp add: is_leap_def)
  then show ?thesis using valid_dateD [OF assms(2)] assms(3)
    by (simp add: days_in_month_def plus_years_def)
qed

lemma valid_plus_years:
  assumes "valid_date s" "valid_date (plus_years s 30)" "k \<le> 30"
  shows "valid_date (plus_years s k)"
proof -
  note v = valid_dateD [OF assms(1)] and v30 = valid_dateD [OF assms(2)]
  have y: "year s + k \<le> 9999" using v30 assms(3) by (simp add: plus_years_def)
  have "day s \<le> days_in_month (year s + k) (month s)"
  proof (cases "month s = 2")
    case True
    then have "day s \<le> 28" using february_day [OF assms(1,2)] by simp
    then show ?thesis using True by (simp add: days_in_month_def)
  next
    case False
    then show ?thesis using v by (simp add: days_in_month_def)
  qed
  then show ?thesis using v y
    by (simp add: valid_date_def check_date_fields_def plus_years_def MINYEAR_def MAXYEAR_def
        nat_int_add)
qed

lemma advance_plus_years:
  assumes "valid_date s" "valid_date (plus_years s 30)" "k + 5 \<le> 30"
  shows "advance (plus_years s k) 5 = Inr (plus_years s (k + 5))"
proof -
  have "valid_date (plus_years s (k + 5))" using valid_plus_years [OF assms(1,2,3)] .
  then have "check_date_fields (int (year s + k) + 5) (month s) (day s)"
    by (simp add: valid_date_def plus_years_def add.assoc)
  then show ?thesis
    by (simp add: advance_def replace_year_def plus_years_def nat_add_distrib)
qed

lemma split_thirty_years:
  assumes "valid_date s" "valid_date (plus_years s 30)"
  shows "split_date_range s (plus_years s 30) 5 = Some (Inr (five_year_windows s))"
proof -
  have "split_loop (plus_years s 0) (plus_years s 30) 5 []
           = Some (Inr [(plus_years s 0, plus_years s 5), (plus_years s 5, plus_years s 10),
                        (plus_years s 10, plus_years s 15), (plus_years s 15, plus_years s 20),
                        (plus_years s 20, plus_years s 25), (plus_years s 25, plus_years s 30)])"
    by (simp add: split_loop_unfold split_loop_done date_less_plus_years
        advance_plus_years [OF assms])
  then show ?thesis by (simp add: split_date_range_def plus_years_0 five_year_windows_def)
qed


lemma concat_map_map: "concat (map (\<lambda>w. map f (g w)) ws) = map f (concat (map g ws))"
  by (induction ws) simp_all

lemma coleta_bcb_sgs_daily:
  assumes "valid_date s" "valid_date (plus_years s 30)" "nome \<noteq> ''data''"
    and "\<forall>k a b. read k (Read_csv_sgs codigo a b) = Returns (sgs_csv enc val (calendar_days a b))"
    and "\<forall>d. to_datetime L (enc d) = Inr (Day d)"
  shows "\<exists>df. coleta_bcb_sgs L read codigo nome Diaria s (plus_years s 30) st
            = Some (Inr df, (print_coletando codigo nome st)\<lparr>reads := reads st + 6\<rparr>)
          \<and> index df = map Day (stitched_days (five_year_windows s))"
proof -
  let ?ws = "five_year_windows s"
  let ?D = "\<lambda>w. calendar_days (fst w) (snd w)"
  have len: "length ?ws = 6" and ne: "?ws \<noteq> []" by (simp_all add: five_year_windows_def)
  have fw: "fetch_windows read codigo ?ws [] (print_coletando codigo nome st)
              = (Inr (map (\<lambda>w. Some (sgs_csv enc val (?D w))) ?ws),
                 (print_coletando codigo nome st)\<lparr>reads := reads st + 6\<rparr>)"
    using fetch_windows_daily [OF assms(4), of ?ws "[]" "print_coletando codigo nome st"] len
    by (simp add: print_coletando_def)
  have cc: "pd_concat (map (\<lambda>w. Some (sgs_csv enc val (?D w))) ?ws)
           = Inr \<lparr>index_name = None,
                  index = concat (map (\<lambda>w. RangeIndex (length (?D w))) ?ws),
                  cols = [(''data'', map enc (stitched_days ?ws)),
                          (''valor'', concat (map (\<lambda>w. map (\<lambda>d. Num (val d)) (?D w)) ?ws))]\<rparr>"
    using pd_concat_sgs [OF ne, of enc val ?D]
    by (simp only: concat_map_map stitched_days_def)
  have nz: "sgs_normalize L nome
           \<lparr>index_name = None,
            index = concat (map (\<lambda>w. RangeIndex (length (?D w))) ?ws),
            cols = [(''data'', map enc (stitched_days ?ws)),
                    (''valor'', concat (map (\<lambda>w. map (\<lambda>d. Num (val d)) (?D w)) ?ws))]\<rparr>
           = Inr \<lparr>index_name = Some ''data'', index = map Day (stitched_days ?ws),
                   cols = [(nome, concat (map (\<lambda>w. map (\<lambda>d. Num (val d)) (?D w)) ?ws))]\<rparr>"
    by (rule sgs_normalize_daily [OF assms(3,5)])
  show ?thesis
    unfolding coleta_bcb_sgs_def
    by (simp add: split_thirty_years [OF assms(1,2)] fw cc nz)
qed

lemma count_list_map_le: "count_list xs x \<le> count_list (map f xs) (f x)"
  by (induction xs) auto

lemma window_endpoints:
  assumes "valid_date s" "valid_date (plus_years s 30)" "j + 5 \<le> 30"
  shows "0 < count_list (calendar_days (plus_years s j) (plus_years s (j + 5))) (plus_years s j)"
    and "0 < count_list (calendar_days (plus_years s j) (plus_years s (j + 5)))
               (plus_years s (j + 5))"
proof -
  have a: "valid_date (plus_years s j)" using valid_plus_years [OF assms(1,2)] assms(3) by simp
  have b: "valid_date (plus_years s (j + 5))" using valid_plus_years [OF assms(1,2,3)] .
  have "plus_years s j \<in> set (calendar_days (plus_years s j) (plus_years s (j + 5)))"
    by (rule calendar_days_member [OF a b a]) (simp_all add: date_less_plus_years)
  then show "0 < count_list (calendar_days (plus_years s j) (plus_years s (j + 5))) (plus_years s j)"
    using count_list_0_iff [of "calendar_days (plus_years s j) (plus_years s (j + 5))"
        "plus_years s j"] by simp
  have "plus_years s (j + 5) \<in> set (calendar_days (plus_years s j) (plus_years s (j + 5)))"
    by (rule calendar_days_member [OF a b b]) (simp_all add: date_less_plus_years)
  then show "0 < count_list (calendar_days (plus_years s j) (plus_years s (j + 5)))
               (plus_years s (j + 5))"
    using count_list_0_iff [of "calendar_days (plus_years s j) (plus_years s (j + 5))"
        "plus_years s (j + 5)"] by simp
qed

lemma stitched_duplicates:
  assumes "valid_date s" "valid_date (plus_years s 30)" "k \<in> {1, 2, 3, 4, 5}"
  shows "2 \<le> count_list (stitched_days (five_year_windows s)) (plus_years s (5 * k))"
proof -
  note e = window_endpoints [OF assms(1,2)]
  show ?thesis
    using assms(3) e(2) [of 0] e(1) [of 5] e(2) [of 5] e(1) [of 10] e(2) [of 10] e(1) [of 15]
      e(2) [of 15] e(1) [of 20] e(2) [of 20] e(1) [of 25]
    by (auto simp: stitched_days_def five_year_windows_def plus_years_0)
qed

lemma stitched_cover:
  assumes "valid_date s" "valid_date (plus_years s 30)" "valid_date d"
    and "\<not> date_less d s" "\<not> date_less (plus_years s 30) d"
  shows "d \<in> set (stitched_days (five_year_windows s))"
proof -
  note v = valid_plus_years [OF assms(1,2)]
  have l: "linked s (five_year_windows s) (plus_years s 30)"
    by (simp add: five_year_windows_def)
  have vs: "\<forall>w\<in>set (five_year_windows s). valid_date (fst w) \<and> valid_date (snd w)"
    using v [of 5] v [of 10] v [of 15] v [of 20] v [of 25] v [of 30] assms(1)
    by (simp add: five_year_windows_def)
  have "five_year_windows s \<noteq> []" by (simp add: five_year_windows_def)
  then obtain w where w: "w \<in> set (five_year_windows s)"
    "\<not> date_less d (fst w)" "\<not> date_less (snd w) d"
    using linked_cover [OF l vs assms(3,4,5)] by blast
  then have "d \<in> set (calendar_days (fst w) (snd w))"
    using calendar_days_member [of "fst w" "snd w" d] vs assms(3) by blast
  then show ?thesis using w(1) by (auto simp: stitched_days_def)
qed


lemma distinct_count_le_1: "distinct xs \<Longrightarrow> count_list xs x \<le> 1"
  by (induction xs) (auto simp: count_list_0_iff)

lemma count_two_not_distinct: "2 \<le> count_list xs x \<Longrightarrow> \<not> distinct xs"
  using distinct_count_le_1 [of xs x] by auto

text \<open>
  C7, as amended. For a daily SGS series over a span of 30 calendar years, when every window
  request returns exactly the calendar days of its inclusive window, \<open>coleta_bcb_sgs\<close>
  splits the span into the six five-year windows, makes six reads (at least 2), and
  returns the rows of the six windows stitched in order. Every calendar day of the span
  occurs in the result (none is missing), and each of the five days where one window ends
  and the next starts occurs at least twice.
\<close>

theorem coleta_bcb_sgs_thirty_years:
  assumes "valid_date s" "valid_date (plus_years s 30)" "nome \<noteq> ''data''"
    and "\<forall>k a b. read k (Read_csv_sgs codigo a b) = Returns (sgs_csv enc val (calendar_days a b))"
    and "\<forall>d. to_datetime L (enc d) = Inr (Day d)"
  shows "split_date_range s (plus_years s 30) 5 = Some (Inr (five_year_windows s)) \<and>
         (\<exists>df st'. coleta_bcb_sgs L read codigo nome Diaria s (plus_years s 30) st
                     = Some (Inr df, st')
            \<and> reads st' = reads st + 6
            \<and> index df = map Day (stitched_days (five_year_windows s))
            \<and> (\<forall>d. valid_date d \<and> \<not> date_less d s \<and> \<not> date_less (plus_years s 30) d
                    \<longrightarrow> Day d \<in> set (index df))
            \<and> (\<forall>k\<in>{1, 2, 3, 4, 5}. 2 \<le> count_list (index df) (Day (plus_years s (5 * k)))))"
proof -
  obtain df where df: "coleta_bcb_sgs L read codigo nome Diaria s (plus_years s 30) st
            = Some (Inr df, (print_coletando codigo nome st)\<lparr>reads := reads st + 6\<rparr>)"
    and ix: "index df = map Day (stitched_days (five_year_windows s))"
    using coleta_bcb_sgs_daily [OF assms, of st] by blast
  have cover: "\<forall>d. valid_date d \<and> \<not> date_less d s \<and> \<not> date_less (plus_years s 30) d
                    \<longrightarrow> Day d \<in> set (index df)"
    using stitched_cover [OF assms(1,2)] by (simp add: ix)
  have dup: "\<forall>k\<in>{1, 2, 3, 4, 5}. 2 \<le> count_list (index df) (Day (plus_years s (5 * k)))"
  proof
    fix k :: nat assume "k \<in> {1, 2, 3, 4, 5}"
    then have "2 \<le> count_list (stitched_days (five_year_windows s)) (plus_years s (5 * k))"
      by (rule stitched_duplicates [OF assms(1,2)])
    also have "\<dots> \<le> count_list (index df) (Day (plus_years s (5 * k)))"
      unfolding ix by (rule count_list_map_le)
    finally show "2 \<le> count_list (index df) (Day (plus_years s (5 * k)))" .
  qed
  have "reads ((print_coletando codigo nome st)\<lparr>reads := reads st + 6\<rparr>) = reads st + 6"
    by simp
  then show ?thesis
    using split_thirty_years [OF assms(1,2)] df ix cover dup by blast
qed

lemma daily_example_hyps:
  "valid_date (mkdate 1 1 2000)" "valid_date (plus_years (mkdate 1 1 2000) 30)"
  "''cambio'' \<noteq> ''data''"
  "\<forall>k a b. daily_sgs k (Read_csv_sgs ''1'' a b)
       = Returns (sgs_csv Day (\<lambda>d. 1) (calendar_days a b))"
  "\<forall>d. to_datetime pandas_example (Day d) = Inr (Day d)"
  by (simp_all add: date_eval plus_years_def daily_sgs_def pandas_example_def)

theorem coleta_bcb_sgs_thirty_years_witness:
  "split_date_range (mkdate 1 1 2000) (plus_years (mkdate 1 1 2000) 30) 5
     = Some (Inr (five_year_windows (mkdate 1 1 2000))) \<and>
   (\<exists>df st'. coleta_bcb_sgs pandas_example daily_sgs ''1'' ''cambio'' Diaria (mkdate 1 1 2000)
               (plus_years (mkdate 1 1 2000) 30) io_init = Some (Inr df, st')
      \<and> reads st' = reads io_init + 6
      \<and> index df = map Day (stitched_days (five_year_windows (mkdate 1 1 2000)))
      \<and> (\<forall>d. valid_date d \<and> \<not> date_less d (mkdate 1 1 2000)
                \<and> \<not> date_less (plus_years (mkdate 1 1 2000) 30) d
              \<longrightarrow> Day d \<in> set (index df))
      \<and> (\<forall>k\<in>{1, 2, 3, 4, 5}.
            2 \<le> count_list (index df) (Day (plus_years (mkdate 1 1 2000) (5 * k)))))"
  by (rule coleta_bcb_sgs_thirty_years [OF daily_example_hyps])

theorem coleta_bcb_sgs_duplicate_day_counterexample:
  "(case coleta_bcb_sgs pandas_example daily_sgs ''1'' ''cambio'' Diaria
           (mkdate 1 1 2000) (mkdate 1 1 2030) io_init of
      None \<Rightarrow> False
    | Some r \<Rightarrow>
        (case fst r of
           Inl e \<Rightarrow> False
         | Inr df \<Rightarrow> 2 \<le> count_list (index df) (Day (mkdate 1 1 2005))
                     \<and> \<not> distinct (index df)))"
proof -
  have e: "plus_years (mkdate 1 1 2000) 30 = mkdate 1 1 2030"
    and b: "plus_years (mkdate 1 1 2000) (5 * 1) = mkdate 1 1 2005"
    by (simp_all add: plus_years_def mkdate_def)
  obtain df where df: "coleta_bcb_sgs pandas_example daily_sgs ''1'' ''cambio'' Diaria
        (mkdate 1 1 2000) (mkdate 1 1 2030) io_init
            = Some (Inr df, (print_coletando ''1'' ''cambio'' io_init)\<lparr>reads := reads io_init + 6\<rparr>)"
    and ix: "index df = map Day (stitched_days (five_year_windows (mkdate 1 1 2000)))"
    using coleta_bcb_sgs_daily [OF daily_example_hyps, of io_init] unfolding e by blast
  have "2 \<le> count_list (stitched_days (five_year_windows (mkdate 1 1 2000))) (mkdate 1 1 2005)"
    using stitched_duplicates [OF daily_example_hyps(1,2), of 1] unfolding b by simp
  also have "\<dots> \<le> count_list (index df) (Day (mkdate 1 1 2005))"
    unfolding ix by (rule count_list_map_le)
  finally have c: "2 \<le> count_list (index df) (Day (mkdate 1 1 2005))" .
  then have "\<not> distinct (index df)" by (rule count_two_not_distinct)
  then show ?thesis unfolding df using c by simp
qed

end
